theory Spec2Isabelle
  imports Main "HOL-Library.Word"
begin

unbundle bit_operations_syntax

section \<open>Raw allocation primitives\<close>

text \<open>
  \<^verbatim>\<open>lvn::memAlloc\<close> and \<^verbatim>\<open>lvn::memFree\<close> of \<^verbatim>\<open>src/src/levikno.cpp\<close>. Addresses are natural
  numbers, \<open>0\<close> is \<^verbatim>\<open>nullptr\<close>. The heap maps the address of every allocated block to its
  bytes. The installed allocator (\<^verbatim>\<open>s_MemAllocFunc\<close>, replaceable through
  \<^verbatim>\<open>setMemFuncs\<close>) is a parameter: given the requested size and the heap it returns the
  address of the new block, \<open>0\<close> when it fails. The installed free function is a parameter
  too. \<open>allocCalls\<close> and \<open>freeCalls\<close> count the calls made through the two function
  pointers. The allocation counter \<^verbatim>\<open>numMemoryAllocations\<close> is a member of the context
  \<^verbatim>\<open>s_LvnContext\<close>: it is \<open>None\<close> while that pointer is null.
\<close>

type_synonym addr = nat
type_synonym byte = "8 word"

datatype error =
    Abort                \<comment> \<open>\<^verbatim>\<open>LVN_ABORT\<close>\<close>
  | ContractViolation    \<comment> \<open>a failed \<^verbatim>\<open>LVN_CORE_ASSERT\<close>\<close>
  | DanglingPointer      \<comment> \<open>access through a pointer or reference into freed storage, or to
                             a slot whose object has been destroyed\<close>
  | OutOfBounds          \<comment> \<open>access to an array outside its allocated slots\<close>
  | DivisionByZero       \<comment> \<open>remainder by zero\<close>
  | Diverges             \<comment> \<open>a loop or recursion that does not end\<close>

record mem_state =
  heap :: "addr \<rightharpoonup> byte list"
  allocCalls :: nat
  freeCalls :: nat
  numMemoryAllocations :: "64 word option"

definition memAlloc ::
  "(nat \<Rightarrow> (addr \<rightharpoonup> byte list) \<Rightarrow> addr) \<Rightarrow> nat \<Rightarrow> mem_state \<Rightarrow> error + (addr \<times> mem_state)" where
  "memAlloc allocFunc sz s =
     (if sz = 0 then Inr (0, s)
      else
        let allocmem = allocFunc sz (heap s);
            s1 = s\<lparr>allocCalls := allocCalls s + 1\<rparr>
        in if allocmem = 0 then Inl Abort
           else
             let s2 = s1\<lparr>heap := (heap s1)(allocmem \<mapsto> replicate sz 0)\<rparr>
             in Inr (allocmem,
                     s2\<lparr>numMemoryAllocations := map_option (\<lambda>c. c + 1) (numMemoryAllocations s2)\<rparr>))"

definition memFree ::
  "(addr \<Rightarrow> (addr \<rightharpoonup> byte list) \<Rightarrow> (addr \<rightharpoonup> byte list)) \<Rightarrow> addr \<Rightarrow> mem_state \<Rightarrow> mem_state" where
  "memFree freeFunc ptr s =
     (if ptr = 0 then s
      else
        let s1 = s\<lparr>heap := freeFunc ptr (heap s), freeCalls := freeCalls s + 1\<rparr>
        in s1\<lparr>numMemoryAllocations := map_option (\<lambda>c. c - 1) (numMemoryAllocations s1)\<rparr>)"

text \<open>A concrete allocator pair to run the primitives on: an arena of two blocks, at the
  addresses 1 and 2, handed out first-fit; it fails (returns null) when both are in use.\<close>

definition bumpAlloc :: "nat \<Rightarrow> (addr \<rightharpoonup> byte list) \<Rightarrow> addr" where
  "bumpAlloc sz h = (if h 1 = None then 1 else if h 2 = None then 2 else 0)"

definition dropBlock :: "addr \<Rightarrow> (addr \<rightharpoonup> byte list) \<Rightarrow> (addr \<rightharpoonup> byte list)" where
  "dropBlock p h = h(p := None)"

definition mem_init :: mem_state where
  "mem_init = \<lparr>heap = Map.empty, allocCalls = 0, freeCalls = 0, numMemoryAllocations = Some 0\<rparr>"

section \<open>LvnVector\<close>

text \<open>
  The class \<^verbatim>\<open>LvnVector<T>\<close> of \<^verbatim>\<open>src/include/levikno/levikno.h\<close>. The buffer \<^verbatim>\<open>m_Data\<close>
  is a list with one entry for each allocated slot: \<open>Some x\<close> where an object \<open>x\<close> has been
  constructed, \<open>None\<close> where the slot holds no object (memory that \<^verbatim>\<open>memNew\<close> returned
  and nothing was constructed in, or an object that \<^verbatim>\<open>destruct_at\<close> destroyed). The loops
  of the source are folds over their index ranges, in the order the source visits them.
  \<open>T_default\<close> stands for the value-initialised \<^verbatim>\<open>T()\<close>. A failed \<^verbatim>\<open>LVN_CORE_ASSERT\<close> is
  the result \<open>Inl ContractViolation\<close>.

  \<^verbatim>\<open>destruct_at\<close> runs the destructor unless \<^verbatim>\<open>T\<close> is trivially destructible; the flag
  \<open>td\<close> says that it is, and then the slot keeps the object it held.

  \<^verbatim>\<open>push_back\<close> and \<^verbatim>\<open>insert_index\<close> take the element as \<^verbatim>\<open>const T&\<close> and
  \<^verbatim>\<open>insert_index(index, data, size)\<close> takes a pointer, and all three read through it
  after they have reserved memory and, for the insertions, after they have shifted the
  tail. So an argument is either an object outside the vector, \<open>Value x\<close>, or the
  element of the vector's own buffer at a position, \<open>Element j\<close>, as \<^verbatim>\<open>v[j]\<close> yields it.
  \<open>vec_read\<close> is the read through the reference at the time the code makes it: from
  the buffer as it is then, and \<open>Inl DanglingPointer\<close> if \<^verbatim>\<open>reserve\<close> has handed the
  buffer the reference points into to \<^verbatim>\<open>memDelete\<close>, or if the slot holds no object
  any more.

  In \<^verbatim>\<open>insert_index\<close> the shifting loop counts down in \<^verbatim>\<open>int64_t\<close> from \<^verbatim>\<open>m_Size - 1\<close> to
  \<^verbatim>\<open>index\<close>; on an empty vector it starts at \<open>-1\<close> and does not run, as the empty range
  \<open>rev [index..<0]\<close> here.
\<close>

record 'a LvnVector =
  m_Data :: "'a option list"
  m_Size :: nat
  m_Capacity :: nat

definition vec_new :: "'a LvnVector" where
  "vec_new = \<lparr>m_Data = [], m_Size = 0, m_Capacity = 0\<rparr>"

definition vec_reserve :: "nat \<Rightarrow> 'a LvnVector \<Rightarrow> 'a LvnVector" where
  "vec_reserve n v =
     (if n \<le> m_Capacity v then v
      else
        let temp = fold (\<lambda>i t. t[i := m_Data v ! i]) [0..<m_Size v] (replicate n None)
        in v\<lparr>m_Data := temp, m_Capacity := n\<rparr>)"

datatype 'a arg = Value 'a | Element nat

definition vec_destruct_at :: "bool \<Rightarrow> nat \<Rightarrow> 'a option list \<Rightarrow> 'a option list" where
  "vec_destruct_at td i d = (if td then d else d[i := None])"

definition vec_read :: "bool \<Rightarrow> 'a option list \<Rightarrow> 'a arg \<Rightarrow> error + 'a" where
  "vec_read freed d a =
     (case a of
        Value x \<Rightarrow> Inr x
      | Element j \<Rightarrow>
          if freed then Inl DanglingPointer
          else if \<not> j < length d then Inl OutOfBounds
          else (case d ! j of None \<Rightarrow> Inl DanglingPointer | Some x \<Rightarrow> Inr x))"

definition vec_resize :: "bool \<Rightarrow> 'a \<Rightarrow> nat \<Rightarrow> 'a LvnVector \<Rightarrow> 'a LvnVector" where
  "vec_resize td T_default n v =
     (if n > m_Size v then
        let v1 = vec_reserve n v;
            d = fold (\<lambda>i d. d[i := Some T_default]) [m_Size v1..<n] (m_Data v1)
        in v1\<lparr>m_Data := d, m_Size := n\<rparr>
      else
        let d = fold (vec_destruct_at td) [n..<m_Size v] (m_Data v)
        in v\<lparr>m_Data := d, m_Size := n\<rparr>)"

text \<open>\<^verbatim>\<open>push_back(const T& value) { resize(m_Size + 1); m_Data[m_Size - 1] = value; }\<close>: the
  value is read after \<^verbatim>\<open>resize\<close>, which has freed the old buffer if the capacity did not
  suffice.\<close>

definition vec_push_back ::
  "bool \<Rightarrow> 'a \<Rightarrow> 'a arg \<Rightarrow> 'a LvnVector \<Rightarrow> error + 'a LvnVector" where
  "vec_push_back td T_default val v =
     (let v1 = vec_resize td T_default (m_Size v + 1) v
      in case vec_read (m_Capacity v < m_Size v + 1) (m_Data v1) val of
           Inl e \<Rightarrow> Inl e
         | Inr x \<Rightarrow> Inr (v1\<lparr>m_Data := (m_Data v1)[m_Size v1 - 1 := Some x]\<rparr>))"

text \<open>The loop \<^verbatim>\<open>for (i = 0; i < size; ++i) new (m_Data + index + i) T(data[i])\<close>: each
  \<^verbatim>\<open>data[i]\<close> is read from the buffer as the shifting loop and the earlier rounds have
  left it.\<close>

fun vec_construct_range ::
  "bool \<Rightarrow> nat \<Rightarrow> 'a arg list \<Rightarrow> nat \<Rightarrow> 'a option list \<Rightarrow> error + 'a option list" where
  "vec_construct_range freed index [] i d = Inr d"
| "vec_construct_range freed index (a # dat) i d =
     (case vec_read freed d a of
        Inl e \<Rightarrow> Inl e
      | Inr x \<Rightarrow> vec_construct_range freed index dat (Suc i) (d[index + i := Some x]))"

definition vec_insert_range ::
  "bool \<Rightarrow> nat \<Rightarrow> 'a arg list \<Rightarrow> 'a LvnVector \<Rightarrow> error + 'a LvnVector" where
  "vec_insert_range td index dat v =
     (let sz = length dat in
      if sz = 0 then Inr v
      else if \<not> index \<le> m_Size v then Inl ContractViolation
      else
        let v1 = vec_reserve (m_Size v + sz) v;
            d1 = fold (\<lambda>i d. vec_destruct_at td i (d[i + sz := d ! i]))
                   (rev [index..<m_Size v1]) (m_Data v1)
        in case vec_construct_range (m_Capacity v < m_Size v + sz) index dat 0 d1 of
             Inl e \<Rightarrow> Inl e
           | Inr d2 \<Rightarrow> Inr (v1\<lparr>m_Data := d2, m_Size := m_Size v1 + sz\<rparr>))"

definition vec_insert_index ::
  "bool \<Rightarrow> nat \<Rightarrow> 'a arg \<Rightarrow> 'a LvnVector \<Rightarrow> error + 'a LvnVector" where
  "vec_insert_index td index val v =
     (if \<not> index \<le> m_Size v then Inl ContractViolation
      else vec_insert_range td index [val] v)"

definition vec_erase_index :: "bool \<Rightarrow> nat \<Rightarrow> 'a LvnVector \<Rightarrow> error + 'a LvnVector" where
  "vec_erase_index td index v =
     (if \<not> index < m_Size v then Inl ContractViolation
      else
        let aftIndex = m_Size v - index - 1;
            d = (if aftIndex \<noteq> 0
                 then vec_destruct_at td (m_Size v - 1)
                        (fold (\<lambda>i d. d[i - 1 := d ! i]) [index + 1..<m_Size v] (m_Data v))
                 else m_Data v)
        in Inr (v\<lparr>m_Data := d, m_Size := m_Size v - 1\<rparr>))"

definition vec_size :: "'a LvnVector \<Rightarrow> nat" where
  "vec_size v = m_Size v"

definition vec_at :: "'a LvnVector \<Rightarrow> nat \<Rightarrow> error + 'a" where
  "vec_at v i =
     (if \<not> i < m_Size v then Inl ContractViolation
      else case m_Data v ! i of None \<Rightarrow> Inl ContractViolation | Some x \<Rightarrow> Inr x)"

definition vec_inv :: "'a LvnVector \<Rightarrow> bool" where
  "vec_inv v \<longleftrightarrow>
     length (m_Data v) = m_Capacity v \<and> m_Size v \<le> m_Capacity v \<and>
     (\<forall>i < m_Size v. m_Data v ! i \<noteq> None)"

definition vec_elems :: "'a LvnVector \<Rightarrow> 'a list" where
  "vec_elems v = map the (take (m_Size v) (m_Data v))"

text \<open>
  Sequences of operations, and what each operation means on the list of elements. An
  argument \<open>Element j\<close> stands for the element at position \<open>j\<close> at the time of the call,
  and the reference \<^verbatim>\<open>v[j]\<close> needs \<open>j\<close> to be below the size.
\<close>

datatype 'a vec_op = PushBack "'a arg" | InsertIndex nat "'a arg" | EraseIndex nat

fun vec_step :: "bool \<Rightarrow> 'a \<Rightarrow> 'a vec_op \<Rightarrow> 'a LvnVector \<Rightarrow> error + 'a LvnVector" where
  "vec_step td T_default (PushBack x) v = vec_push_back td T_default x v"
| "vec_step td T_default (InsertIndex i x) v = vec_insert_index td i x v"
| "vec_step td T_default (EraseIndex i) v = vec_erase_index td i v"

fun vec_run :: "bool \<Rightarrow> 'a \<Rightarrow> 'a vec_op list \<Rightarrow> 'a LvnVector \<Rightarrow> error + 'a LvnVector" where
  "vec_run td T_default [] v = Inr v"
| "vec_run td T_default (op # ops) v =
     (case vec_step td T_default op v of
        Inl e \<Rightarrow> Inl e
      | Inr v' \<Rightarrow> vec_run td T_default ops v')"

fun arg_value :: "'a arg \<Rightarrow> 'a list \<Rightarrow> 'a" where
  "arg_value (Value x) xs = x"
| "arg_value (Element j) xs = xs ! j"

fun arg_in_range :: "'a arg \<Rightarrow> nat \<Rightarrow> bool" where
  "arg_in_range (Value x) n = True"
| "arg_in_range (Element j) n = (j < n)"

fun list_step :: "'a vec_op \<Rightarrow> 'a list \<Rightarrow> 'a list" where
  "list_step (PushBack x) xs = xs @ [arg_value x xs]"
| "list_step (InsertIndex i x) xs = take i xs @ arg_value x xs # drop i xs"
| "list_step (EraseIndex i) xs = take i xs @ drop (Suc i) xs"

fun list_run :: "'a vec_op list \<Rightarrow> 'a list \<Rightarrow> 'a list" where
  "list_run [] xs = xs"
| "list_run (op # ops) xs = list_run ops (list_step op xs)"

fun ops_in_range :: "'a vec_op list \<Rightarrow> nat \<Rightarrow> bool" where
  "ops_in_range [] n = True"
| "ops_in_range (PushBack x # ops) n = (arg_in_range x n \<and> ops_in_range ops (n + 1))"
| "ops_in_range (InsertIndex i x # ops) n =
     (i \<le> n \<and> arg_in_range x n \<and> ops_in_range ops (n + 1))"
| "ops_in_range (EraseIndex i # ops) n = (i < n \<and> ops_in_range ops (n - 1))"

fun net_count :: "'a vec_op list \<Rightarrow> int" where
  "net_count [] = 0"
| "net_count (PushBack x # ops) = net_count ops + 1"
| "net_count (InsertIndex i x # ops) = net_count ops + 1"
| "net_count (EraseIndex i # ops) = net_count ops - 1"

text \<open>The sequences in which every argument is an object outside the vector.\<close>

fun is_value :: "'a arg \<Rightarrow> bool" where
  "is_value (Value x) = True"
| "is_value (Element j) = False"

fun outside_args :: "'a vec_op list \<Rightarrow> bool" where
  "outside_args [] = True"
| "outside_args (PushBack x # ops) = (is_value x \<and> outside_args ops)"
| "outside_args (InsertIndex i x # ops) = (is_value x \<and> outside_args ops)"
| "outside_args (EraseIndex i # ops) = outside_args ops"

section \<open>LvnHashMap\<close>

text \<open>
  The class \<^verbatim>\<open>LvnHashMap<K, T, Hash>\<close> of \<^verbatim>\<open>src/include/levikno/levikno.h\<close>, with the
  key type \<^verbatim>\<open>K = size_t\<close> (a 64-bit word) and the default hash \<^verbatim>\<open>LvnHash\<close>. The members
  \<^verbatim>\<open>m_HashEntries\<close>, \<^verbatim>\<open>m_Size\<close>, \<^verbatim>\<open>m_Capacity\<close> are the fields \<open>hm_HashEntries\<close>,
  \<open>hm_Size\<close>, \<open>hm_Capacity\<close>; the members of \<^verbatim>\<open>LvnHashEntry\<close> carry the prefix
  \<open>entry_\<close>. \<open>T_default\<close> stands for \<^verbatim>\<open>T{}\<close>; \<^verbatim>\<open>memNew\<close> with \<^verbatim>\<open>construct = true\<close>
  value-initialises every entry of a new table, which is \<open>entry_zero\<close>. The value type is
  taken to be trivially destructible, so \<^verbatim>\<open>destruct()\<close> and the destructor calls do
  nothing.

  Each of \<^verbatim>\<open>insert\<close>, \<^verbatim>\<open>erase\<close>, \<^verbatim>\<open>at\<close> and \<^verbatim>\<open>contains\<close> holds the same loop along the
  chain of \<^verbatim>\<open>nextIndex\<close> links; it is \<open>hm_walk\<close>, which returns \<open>(True, i)\<close> when it stops
  at an entry \<open>i\<close> with the key and \<open>(False, i)\<close> when the chain ends at \<open>i\<close>. The probing
  loop of \<^verbatim>\<open>insert\<close> is \<open>hm_probe\<close>. Both read the table without changing it, so a run
  of more than \<^verbatim>\<open>capacity\<close> steps has come back to an index it has visited and never
  ends: they are given \<^verbatim>\<open>capacity + 1\<close> steps and return \<open>Inl Diverges\<close> beyond. An index
  outside the table is \<open>Inl OutOfBounds\<close>, the remainder by a capacity of zero is
  \<open>Inl DivisionByZero\<close>. \<^verbatim>\<open>insert\<close> and \<^verbatim>\<open>reserve\<close> call each other (a rehash inserts
  every old entry), and \<^verbatim>\<open>at\<close> calls itself after a miss; \<open>fuel\<close> bounds the depth of
  these calls. The two overloads of \<^verbatim>\<open>insert\<close> differ only in copying or moving the
  value; \<open>hm_insert_slot\<close> is the body of \<^verbatim>\<open>insert\<close> below the rehash test.
\<close>

record 'v LvnHashEntry =
  entry_data :: 'v
  entry_key :: "64 word"
  entry_nextIndex :: nat
  entry_taken :: bool
  entry_hasNext :: bool

record 'v LvnHashMap =
  hm_HashEntries :: "'v LvnHashEntry list"
  hm_Size :: nat
  hm_Capacity :: nat

definition LvnHash :: "64 word \<Rightarrow> 64 word" where
  "LvnHash k0 =
     (let k1 = k0 + 0x9E3779B97F4A7C15;
          k2 = (k1 XOR drop_bit 30 k1) * 0xBF58476D1CE4E5B9;
          k3 = (k2 XOR drop_bit 27 k2) * 0x94D049BB133111EB
      in k3 XOR drop_bit 31 k3)"

definition hm_new :: "'v LvnHashMap" where
  "hm_new = \<lparr>hm_HashEntries = [], hm_Size = 0, hm_Capacity = 0\<rparr>"

definition entry_zero :: "'v \<Rightarrow> 'v LvnHashEntry" where
  "entry_zero T_default =
     \<lparr>entry_data = T_default, entry_key = 0, entry_nextIndex = 0,
      entry_taken = False, entry_hasNext = False\<rparr>"

definition hm_home :: "64 word \<Rightarrow> 'v LvnHashMap \<Rightarrow> error + nat" where
  "hm_home k s =
     (if hm_Capacity s = 0 then Inl DivisionByZero
      else
        let index = unat (LvnHash k) mod hm_Capacity s
        in if index < length (hm_HashEntries s) then Inr index else Inl OutOfBounds)"

fun hm_walk :: "nat \<Rightarrow> 64 word \<Rightarrow> 'v LvnHashEntry list \<Rightarrow> nat \<Rightarrow> error + (bool \<times> nat)" where
  "hm_walk 0 k es index = Inl Diverges"
| "hm_walk (Suc fuel) k es index =
     (if entry_hasNext (es ! index) then
        let index' = entry_nextIndex (es ! index)
        in if \<not> index' < length es then Inl OutOfBounds
           else if entry_key (es ! index') = k then Inr (True, index')
           else hm_walk fuel k es index'
      else Inr (False, index))"

fun hm_probe :: "nat \<Rightarrow> 'v LvnHashEntry list \<Rightarrow> nat \<Rightarrow> nat \<Rightarrow> error + nat" where
  "hm_probe 0 es cap index = Inl Diverges"
| "hm_probe (Suc fuel) es cap index =
     (if \<not> index < length es then Inl OutOfBounds
      else if entry_taken (es ! index) then hm_probe fuel es cap ((index + 1) mod cap)
      else Inr index)"

definition hm_insert_slot :: "64 word \<Rightarrow> 'v \<Rightarrow> 'v LvnHashMap \<Rightarrow> error + 'v LvnHashMap" where
  "hm_insert_slot k val s =
     (case hm_home k s of
        Inl e \<Rightarrow> Inl e
      | Inr index \<Rightarrow>
          let es = hm_HashEntries s in
          if entry_taken (es ! index) \<and> entry_key (es ! index) = k
          then Inr (s\<lparr>hm_HashEntries := es[index := (es ! index)\<lparr>entry_data := val\<rparr>]\<rparr>)
          else
            (case hm_walk (Suc (length es)) k es index of
              Inl e \<Rightarrow> Inl e
            | Inr (True, i) \<Rightarrow>
                Inr (s\<lparr>hm_HashEntries := es[i := (es ! i)\<lparr>entry_data := val\<rparr>]\<rparr>)
            | Inr (False, chainEnd) \<Rightarrow>
                (case hm_probe (Suc (length es)) es (hm_Capacity s) chainEnd of
                   Inl e \<Rightarrow> Inl e
                 | Inr freeIdx \<Rightarrow>
                     let es1 = es[freeIdx := (es ! freeIdx)
                                   \<lparr>entry_key := k, entry_data := val, entry_taken := True\<rparr>];
                         es2 = (if entry_key (es1 ! chainEnd) \<noteq> entry_key (es1 ! freeIdx)
                                then es1[chainEnd := (es1 ! chainEnd)
                                          \<lparr>entry_nextIndex := freeIdx, entry_hasNext := True\<rparr>]
                                else es1)
                     in Inr (s\<lparr>hm_HashEntries := es2, hm_Size := hm_Size s + 1\<rparr>))))"

fun hm_insert :: "nat \<Rightarrow> 'v \<Rightarrow> 64 word \<Rightarrow> 'v \<Rightarrow> 'v LvnHashMap \<Rightarrow> error + 'v LvnHashMap"
and hm_reserve :: "nat \<Rightarrow> 'v \<Rightarrow> nat \<Rightarrow> 'v LvnHashMap \<Rightarrow> error + 'v LvnHashMap"
and hm_rehash :: "nat \<Rightarrow> 'v \<Rightarrow> 'v LvnHashEntry list \<Rightarrow> 'v LvnHashMap \<Rightarrow> error + 'v LvnHashMap"
where
  "hm_insert fuel T_default k val s =
     (if hm_Size s * 10 \<ge> hm_Capacity s * 7 then
        (case fuel of
           0 \<Rightarrow> Inl Diverges
         | Suc fuel' \<Rightarrow>
             (case hm_reserve fuel' T_default
                     (if hm_Capacity s \<noteq> 0 then hm_Capacity s * 2 else 8) s of
                Inl e \<Rightarrow> Inl e
              | Inr s1 \<Rightarrow> hm_insert_slot k val s1))
      else hm_insert_slot k val s)"
| "hm_reserve fuel T_default n s =
     (if n \<le> hm_Size s then Inr s
      else
        let temp = hm_HashEntries s;
            tempSize = hm_Capacity s
        in hm_rehash fuel T_default (take tempSize temp)
             (s\<lparr>hm_HashEntries := replicate n (entry_zero T_default),
                hm_Capacity := n, hm_Size := 0\<rparr>))"
| "hm_rehash fuel T_default [] s = Inr s"
| "hm_rehash fuel T_default (e # temp) s =
     (if entry_taken e then
        (case hm_insert fuel T_default (entry_key e) (entry_data e) s of
           Inl err \<Rightarrow> Inl err
         | Inr s1 \<Rightarrow> hm_rehash fuel T_default temp s1)
      else hm_rehash fuel T_default temp s)"

declare hm_insert.simps [simp del] hm_reserve.simps [simp del]

fun erase_recursive :: "nat \<Rightarrow> nat \<Rightarrow> 'v LvnHashEntry list \<Rightarrow> error + (bool \<times> 'v LvnHashEntry list)" where
  "erase_recursive 0 index es = Inl Diverges"
| "erase_recursive (Suc fuel) index es =
     (if \<not> index < length es then Inl OutOfBounds
      else if entry_hasNext (es ! index) then
        let nextIndex = entry_nextIndex (es ! index)
        in if \<not> nextIndex < length es then Inl OutOfBounds
           else
             let es1 = es[index := (es ! index)
                           \<lparr>entry_key := entry_key (es ! nextIndex),
                            entry_nextIndex := entry_nextIndex (es ! nextIndex),
                            entry_taken := entry_taken (es ! nextIndex),
                            entry_hasNext := entry_hasNext (es ! nextIndex),
                            entry_data := entry_data (es ! nextIndex)\<rparr>]
             in (case erase_recursive fuel nextIndex es1 of
                   Inl e \<Rightarrow> Inl e
                 | Inr (True, es2) \<Rightarrow>
                     Inr (False, es2[index := (es2 ! index)
                                      \<lparr>entry_nextIndex := 0, entry_hasNext := False\<rparr>])
                 | Inr (False, es2) \<Rightarrow> Inr (False, es2))
      else
        Inr (True, es[index := (es ! index)
                       \<lparr>entry_key := 0, entry_nextIndex := 0,
                        entry_taken := False, entry_hasNext := False\<rparr>]))"

definition hm_erase :: "64 word \<Rightarrow> 'v LvnHashMap \<Rightarrow> error + 'v LvnHashMap" where
  "hm_erase k s =
     (if hm_Size s = 0 then Inr s
      else
        case hm_home k s of
          Inl e \<Rightarrow> Inl e
        | Inr index \<Rightarrow>
            let es = hm_HashEntries s in
            if entry_key (es ! index) = k then
              (case erase_recursive (Suc (length es)) index es of
                 Inl e \<Rightarrow> Inl e
               | Inr (r, es') \<Rightarrow> Inr (s\<lparr>hm_HashEntries := es'\<rparr>))
            else
              (case hm_walk (Suc (length es)) k es index of
                Inl e \<Rightarrow> Inl e
              | Inr (True, i) \<Rightarrow>
                  (case erase_recursive (Suc (length es)) i es of
                     Inl e \<Rightarrow> Inl e
                   | Inr (r, es') \<Rightarrow> Inr (s\<lparr>hm_HashEntries := es'\<rparr>))
              | Inr (False, chainEnd) \<Rightarrow> Inr s))"

fun hm_at :: "nat \<Rightarrow> 'v \<Rightarrow> 64 word \<Rightarrow> 'v LvnHashMap \<Rightarrow> error + ('v \<times> 'v LvnHashMap)" where
  "hm_at fuel T_default k s =
     (case (if hm_Size s = 0 then hm_insert fuel T_default k T_default s else Inr s) of
        Inl e \<Rightarrow> Inl e
      | Inr s1 \<Rightarrow>
          (case hm_home k s1 of
             Inl e \<Rightarrow> Inl e
           | Inr index \<Rightarrow>
               let es = hm_HashEntries s1 in
               if entry_taken (es ! index) \<and> entry_key (es ! index) = k
               then Inr (entry_data (es ! index), s1)
               else
                 (case hm_walk (Suc (length es)) k es index of
                   Inl e \<Rightarrow> Inl e
                 | Inr (True, i) \<Rightarrow> Inr (entry_data (es ! i), s1)
                 | Inr (False, chainEnd) \<Rightarrow>
                     (case fuel of
                        0 \<Rightarrow> Inl Diverges
                      | Suc fuel' \<Rightarrow>
                          (case hm_insert fuel T_default k T_default s1 of
                             Inl e \<Rightarrow> Inl e
                           | Inr s2 \<Rightarrow> hm_at fuel' T_default k s2)))))"

declare hm_at.simps [simp del]

definition hm_contains :: "64 word \<Rightarrow> 'v LvnHashMap \<Rightarrow> error + bool" where
  "hm_contains k s =
     (if hm_Size s = 0 then Inr False
      else
        case hm_home k s of
          Inl e \<Rightarrow> Inl e
        | Inr index \<Rightarrow>
            let es = hm_HashEntries s in
            if k = entry_key (es ! index) then Inr True
            else
              (case hm_walk (Suc (length es)) k es index of
                Inl e \<Rightarrow> Inl e
              | Inr (found, i) \<Rightarrow> Inr found))"

definition hm_size :: "'v LvnHashMap \<Rightarrow> nat" where
  "hm_size s = hm_Size s"

definition hm_capacity :: "'v LvnHashMap \<Rightarrow> nat" where
  "hm_capacity s = hm_Capacity s"



datatype 'v hm_op = Insert "64 word" 'v | Erase "64 word" | At "64 word"

fun hm_step :: "nat \<Rightarrow> 'v \<Rightarrow> 'v hm_op \<Rightarrow> 'v LvnHashMap \<Rightarrow> error + 'v LvnHashMap" where
  "hm_step fuel T_default (Insert k v) s = hm_insert fuel T_default k v s"
| "hm_step fuel T_default (Erase k) s = hm_erase k s"
| "hm_step fuel T_default (At k) s =
     (case hm_at fuel T_default k s of Inl e \<Rightarrow> Inl e | Inr (v, s') \<Rightarrow> Inr s')"

fun hm_run :: "nat \<Rightarrow> 'v \<Rightarrow> 'v hm_op list \<Rightarrow> 'v LvnHashMap \<Rightarrow> error + 'v LvnHashMap" where
  "hm_run fuel T_default [] s = Inr s"
| "hm_run fuel T_default (op # ops) s =
     (case hm_step fuel T_default op s of
        Inl e \<Rightarrow> Inl e
      | Inr s' \<Rightarrow> hm_run fuel T_default ops s')"

fun live_keys :: "'v hm_op list \<Rightarrow> 64 word list \<Rightarrow> 64 word list" where
  "live_keys [] ks = ks"
| "live_keys (Insert k v # ops) ks = live_keys ops (List.insert k ks)"
| "live_keys (At k # ops) ks = live_keys ops (List.insert k ks)"
| "live_keys (Erase k # ops) ks = live_keys ops (removeAll k ks)"

definition live_entries :: "'v LvnHashMap \<Rightarrow> nat" where
  "live_entries s = length (filter entry_taken (hm_HashEntries s))"

definition hm_inv :: "'v LvnHashMap \<Rightarrow> bool" where
  "hm_inv s \<longleftrightarrow> length (hm_HashEntries s) = hm_Capacity s \<and> hm_Size s \<le> hm_Capacity s"

definition and_then :: "error + 'a \<Rightarrow> ('a \<Rightarrow> error + 'b) \<Rightarrow> error + 'b" where
  "and_then r f = (case r of Inl e \<Rightarrow> Inl e | Inr x \<Rightarrow> f x)"

definition hm_load_ok :: "'v LvnHashMap \<Rightarrow> bool" where
  "hm_load_ok s \<longleftrightarrow> hm_size s * 10 \<le> hm_capacity s * 7"

definition hm_one :: "nat LvnHashMap" where
  "hm_one =
     \<lparr>hm_HashEntries =
        (replicate 8 (entry_zero 0))
          [1 := \<lparr>entry_data = 100, entry_key = 1, entry_nextIndex = 0,
                 entry_taken = True, entry_hasNext = False\<rparr>],
      hm_Size = 1, hm_Capacity = 8\<rparr>"

definition hm_one_erased :: "nat LvnHashMap" where
  "hm_one_erased =
     \<lparr>hm_HashEntries = (replicate 8 (entry_zero 0))[1 := entry_zero 100],
      hm_Size = 1, hm_Capacity = 8\<rparr>"

text \<open>The number of \<^verbatim>\<open>insert\<close> calls in a sequence, and the situation in which the entry
  of a key sits in its home slot with no chain behind it.\<close>

fun insert_count :: "'v hm_op list \<Rightarrow> nat" where
  "insert_count [] = 0"
| "insert_count (Insert k v # ops) = Suc (insert_count ops)"
| "insert_count (Erase k # ops) = insert_count ops"
| "insert_count (At k # ops) = insert_count ops"

definition hm_unchained :: "64 word \<Rightarrow> 'v LvnHashMap \<Rightarrow> bool" where
  "hm_unchained k s =
     (case hm_home k s of
        Inl e \<Rightarrow> False
      | Inr i \<Rightarrow> entry_taken (hm_HashEntries s ! i) \<and> entry_key (hm_HashEntries s ! i) = k \<and>
                 \<not> entry_hasNext (hm_HashEntries s ! i))"

definition hm_cycles :: "nat hm_op list" where
  "hm_cycles = [Insert 1 0, Erase 1, Insert 2 0, Erase 2, Insert 3 0, Erase 3,
                Insert 4 0, Erase 4, Insert 5 0, Erase 5, Insert 6 0, Erase 6]"

section \<open>LvnArenaList\<close>

text \<open>
  The class \<^verbatim>\<open>LvnArenaList<T>\<close> of \<^verbatim>\<open>src/include/levikno/levikno.h\<close> and its node
  \<^verbatim>\<open>LvnLinkedIndexNode<T>\<close>. The members of the node carry the prefix \<open>node_\<close>, the
  members \<^verbatim>\<open>m_Nodes\<close>, \<^verbatim>\<open>m_Size\<close>, ... of the list the prefix \<open>al_\<close>. \<open>al_Nodes\<close> is the
  node array, one entry for each of the \<^verbatim>\<open>m_Capacity\<close> slots. \<open>al_FreeNodes\<close> holds the
  entries \<open>0 .. m_FreeSize - 1\<close> of the array \<^verbatim>\<open>m_FreeNodes\<close>, the only ones the code reads:
  writing entry \<^verbatim>\<open>m_FreeSize\<close> and incrementing it appends to the list, decrementing it
  drops the last entry, and \<^verbatim>\<open>m_FreeSize\<close> is the length of the list.

  \<^verbatim>\<open>reserve\<close> takes its new array from \<^verbatim>\<open>memNew<LvnINode<T>>(size, false)\<close>, which calls the
  installed allocator (by default \<^verbatim>\<open>malloc\<close>) and constructs nothing: the slots beyond the
  old capacity hold whatever the allocator returned. That content is the parameter
  \<open>fresh\<close>, which gives the node found in each new slot. The value type is taken to be
  trivially destructible. A failed \<^verbatim>\<open>LVN_CORE_ASSERT\<close> is \<open>Inl ContractViolation\<close>.

  \<^verbatim>\<open>push_back\<close>, \<^verbatim>\<open>push_front\<close> and \<^verbatim>\<open>insert_index\<close> take the value as \<^verbatim>\<open>const T&\<close> and read
  it after \<^verbatim>\<open>reserve\<close>. The argument is an object outside the list, \<open>Value x\<close>, or the
  value member of the node in a slot of the list's own array, \<open>Element i\<close>, as \<^verbatim>\<open>front()\<close>,
  \<^verbatim>\<open>back()\<close> and \<^verbatim>\<open>operator[]\<close> yield it. \<open>al_read\<close> is the read through the reference
  where the code makes it: from the node array as it is then, and \<open>Inl DanglingPointer\<close>
  if \<^verbatim>\<open>reserve\<close> has freed the array the reference points into.

  \<open>al_push_first\<close> is the branch of \<^verbatim>\<open>push_back\<close> and \<^verbatim>\<open>push_front\<close> for an empty list (the
  same statements in both); \<open>al_insert_at\<close> holds the statements that the two branches of
  \<^verbatim>\<open>insert_index\<close> share (copy the node at the position into the new slot, link the new
  slot behind it, store the value at the position).
\<close>

record 'a LvnINode =
  node_next :: nat
  node_prev :: nat
  node_hasPrev :: bool
  node_hasNext :: bool
  node_taken :: bool
  node_value :: 'a

record 'a LvnArenaList =
  al_Nodes :: "'a LvnINode list"
  al_FreeNodes :: "nat list"
  al_Size :: nat
  al_Capacity :: nat
  al_FreeCapacity :: nat
  al_Head :: nat
  al_Tail :: nat

definition al_FreeSize :: "'a LvnArenaList \<Rightarrow> nat" where
  "al_FreeSize s = length (al_FreeNodes s)"

definition al_new :: "'a LvnArenaList" where
  "al_new = \<lparr>al_Nodes = [], al_FreeNodes = [], al_Size = 0, al_Capacity = 0,
             al_FreeCapacity = 0, al_Head = 0, al_Tail = 0\<rparr>"

definition destruct_at :: "'a LvnINode \<Rightarrow> 'a LvnINode" where
  "destruct_at node =
     node\<lparr>node_next := 0, node_prev := 0, node_hasPrev := False, node_hasNext := False,
          node_taken := False\<rparr>"

definition al_reserve :: "(nat \<Rightarrow> 'a LvnINode) \<Rightarrow> nat \<Rightarrow> 'a LvnArenaList \<Rightarrow> 'a LvnArenaList" where
  "al_reserve fresh n s =
     (if n \<le> al_Capacity s then s
      else
        let temp = take (al_Capacity s) (al_Nodes s) @ map fresh [al_Capacity s..<n]
        in s\<lparr>al_Nodes := temp, al_Capacity := n, al_FreeCapacity := n\<rparr>)"

definition node_index :: "'a LvnArenaList \<Rightarrow> nat \<Rightarrow> error + nat" where
  "node_index s index =
     (if \<not> index < al_Size s then Inl ContractViolation
      else Inr (((\<lambda>nodeIndex. if node_hasNext (al_Nodes s ! nodeIndex)
                               then node_next (al_Nodes s ! nodeIndex) else nodeIndex)
                 ^^ index) (al_Head s)))"

text \<open>The linear search \<^verbatim>\<open>for (i = 0; i < m_Capacity; i++) if (!m_Nodes[i].taken)\<close>:
  the first slot that is not taken, if there is one.\<close>

definition find_untaken :: "'a LvnArenaList \<Rightarrow> nat option" where
  "find_untaken s =
     List.find (\<lambda>i. \<not> node_taken (al_Nodes s ! i)) [0..<al_Capacity s]"

definition al_read :: "bool \<Rightarrow> 'a LvnINode list \<Rightarrow> 'a arg \<Rightarrow> error + 'a" where
  "al_read freed ns a =
     (case a of
        Value x \<Rightarrow> Inr x
      | Element i \<Rightarrow>
          if freed then Inl DanglingPointer
          else if \<not> i < length ns then Inl OutOfBounds
          else Inr (node_value (ns ! i)))"

definition al_push_first ::
  "(nat \<Rightarrow> 'a LvnINode) \<Rightarrow> 'a arg \<Rightarrow> 'a LvnArenaList \<Rightarrow> error + 'a LvnArenaList" where
  "al_push_first fresh dat s =
     (let s1 = al_reserve fresh (al_Size s + 1) s;
          s2 = s1\<lparr>al_Head := 0, al_Tail := 0\<rparr>;
          ns = al_Nodes s2
      in case al_read (al_Capacity s < al_Size s + 1) ns dat of
           Inl e \<Rightarrow> Inl e
         | Inr x \<Rightarrow>
             let ns1 = ns[al_Head s2 := (ns ! al_Head s2)\<lparr>node_value := x\<rparr>];
                 ns2 = ns1[al_Head s2 := (ns1 ! al_Head s2)\<lparr>node_taken := True\<rparr>]
             in Inr (s2\<lparr>al_Nodes := ns2, al_Size := al_Size s2 + 1\<rparr>))"

definition al_push_back ::
  "(nat \<Rightarrow> 'a LvnINode) \<Rightarrow> 'a arg \<Rightarrow> 'a LvnArenaList \<Rightarrow> error + 'a LvnArenaList" where
  "al_push_back fresh dat s =
     (if al_Size s = 0 then al_push_first fresh dat s
      else
        let s1 = (if al_Size s \<ge> al_Capacity s then al_reserve fresh (al_Size s + 1) s else s);
            ns = al_Nodes s1;
            tl_i = al_Tail s1
        in if al_FreeSize s1 \<noteq> 0 then
             let nodeIndex = al_FreeNodes s1 ! (al_FreeSize s1 - 1)
             in (case al_read (al_Size s \<ge> al_Capacity s) ns dat of
                   Inl e \<Rightarrow> Inl e
                 | Inr x \<Rightarrow>
                     let ns1 = ns[nodeIndex := (ns ! nodeIndex)
                                \<lparr>node_value := x, node_prev := tl_i, node_hasPrev := True,
                                 node_taken := True\<rparr>];
                         ns2 = ns1[tl_i := (ns1 ! tl_i)
                                \<lparr>node_next := nodeIndex, node_hasNext := True\<rparr>]
                     in Inr (s1\<lparr>al_Nodes := ns2, al_Tail := nodeIndex,
                                al_Size := al_Size s1 + 1,
                                al_FreeNodes := butlast (al_FreeNodes s1)\<rparr>))
           else
             (case find_untaken s1 of
                Some i \<Rightarrow>
                  (case al_read (al_Size s \<ge> al_Capacity s) ns dat of
                     Inl e \<Rightarrow> Inl e
                   | Inr x \<Rightarrow>
                       let ns1 = ns[i := (ns ! i)
                                  \<lparr>node_value := x, node_prev := tl_i, node_hasPrev := True,
                                   node_taken := True\<rparr>];
                           ns2 = ns1[tl_i := (ns1 ! tl_i)\<lparr>node_next := i, node_hasNext := True\<rparr>]
                       in Inr (s1\<lparr>al_Nodes := ns2, al_Tail := i, al_Size := al_Size s1 + 1\<rparr>))
              | None \<Rightarrow> Inl ContractViolation))"

definition al_push_front ::
  "(nat \<Rightarrow> 'a LvnINode) \<Rightarrow> 'a arg \<Rightarrow> 'a LvnArenaList \<Rightarrow> error + 'a LvnArenaList" where
  "al_push_front fresh dat s =
     (if al_Size s = 0 then al_push_first fresh dat s
      else
        let s1 = (if al_Size s \<ge> al_Capacity s then al_reserve fresh (al_Size s + 1) s else s);
            ns = al_Nodes s1;
            hd_i = al_Head s1
        in if al_FreeSize s1 \<noteq> 0 then
             let nodeIndex = al_FreeNodes s1 ! (al_FreeSize s1 - 1)
             in (case al_read (al_Size s \<ge> al_Capacity s) ns dat of
                   Inl e \<Rightarrow> Inl e
                 | Inr x \<Rightarrow>
                     let ns1 = ns[nodeIndex := (ns ! nodeIndex)
                                \<lparr>node_value := x, node_next := hd_i, node_hasNext := True,
                                 node_taken := True\<rparr>];
                         ns2 = ns1[hd_i := (ns1 ! hd_i)
                                \<lparr>node_prev := nodeIndex, node_hasPrev := True\<rparr>]
                     in Inr (s1\<lparr>al_Nodes := ns2, al_Head := nodeIndex,
                                al_Size := al_Size s1 + 1,
                                al_FreeNodes := butlast (al_FreeNodes s1)\<rparr>))
           else
             (case find_untaken s1 of
                Some i \<Rightarrow>
                  (case al_read (al_Size s \<ge> al_Capacity s) ns dat of
                     Inl e \<Rightarrow> Inl e
                   | Inr x \<Rightarrow>
                       let ns1 = ns[i := (ns ! i)
                                  \<lparr>node_value := x, node_next := hd_i, node_hasNext := True,
                                   node_taken := True\<rparr>];
                           ns2 = ns1[hd_i := (ns1 ! hd_i)\<lparr>node_prev := i, node_hasPrev := True\<rparr>]
                       in Inr (s1\<lparr>al_Nodes := ns2, al_Head := i, al_Size := al_Size s1 + 1\<rparr>))
              | None \<Rightarrow> Inl ContractViolation))"

definition al_pop_back :: "'a LvnArenaList \<Rightarrow> error + 'a LvnArenaList" where
  "al_pop_back s =
     (if al_Size s = 0 then Inr s
      else if al_Size s = 1 then
        Inr (s\<lparr>al_Nodes := (al_Nodes s)[al_Head s := destruct_at (al_Nodes s ! al_Head s)],
               al_Tail := 0, al_Head := 0, al_Size := al_Size s - 1\<rparr>)
      else if \<not> al_FreeSize s < al_FreeCapacity s then Inl ContractViolation
      else
        let free = al_FreeNodes s @ [al_Tail s];
            ns = al_Nodes s;
            node_i = al_Tail s;
            prev_i = node_prev (ns ! node_i);
            ns1 = ns[prev_i := (ns ! prev_i)\<lparr>node_next := 0, node_hasNext := False\<rparr>];
            ns2 = ns1[node_i := destruct_at (ns1 ! node_i)]
        in Inr (s\<lparr>al_Nodes := ns2, al_FreeNodes := free, al_Tail := prev_i,
                  al_Size := al_Size s - 1\<rparr>))"

definition al_pop_front :: "'a LvnArenaList \<Rightarrow> error + 'a LvnArenaList" where
  "al_pop_front s =
     (if al_Size s = 0 then Inr s
      else if al_Size s = 1 then
        Inr (s\<lparr>al_Nodes := (al_Nodes s)[al_Head s := destruct_at (al_Nodes s ! al_Head s)],
               al_Tail := 0, al_Head := 0, al_Size := al_Size s - 1\<rparr>)
      else if \<not> al_FreeSize s < al_FreeCapacity s then Inl ContractViolation
      else
        let free = al_FreeNodes s @ [al_Head s];
            ns = al_Nodes s;
            node_i = al_Head s;
            next_i = node_next (ns ! node_i);
            ns1 = ns[next_i := (ns ! next_i)\<lparr>node_prev := 0, node_hasPrev := False\<rparr>];
            ns2 = ns1[node_i := destruct_at (ns1 ! node_i)]
        in Inr (s\<lparr>al_Nodes := ns2, al_FreeNodes := free, al_Head := next_i,
                  al_Size := al_Size s - 1\<rparr>))"

definition al_erase_index :: "nat \<Rightarrow> 'a LvnArenaList \<Rightarrow> error + 'a LvnArenaList" where
  "al_erase_index index s =
     (if \<not> index < al_Size s then Inl ContractViolation
      else if index = 0 then al_pop_front s
      else if index = al_Size s - 1 then al_pop_back s
      else
        case node_index s index of
          Inl e \<Rightarrow> Inl e
        | Inr nodeIndex \<Rightarrow>
            let ns = al_Nodes s;
                ns1 = (if node_hasNext (ns ! nodeIndex)
                       then ns[node_next (ns ! nodeIndex) :=
                                 (ns ! node_next (ns ! nodeIndex))
                                   \<lparr>node_prev := node_prev (ns ! nodeIndex)\<rparr>]
                       else ns);
                ns2 = (if node_hasPrev (ns1 ! nodeIndex)
                       then ns1[node_prev (ns1 ! nodeIndex) :=
                                 (ns1 ! node_prev (ns1 ! nodeIndex))
                                   \<lparr>node_next := node_next (ns1 ! nodeIndex)\<rparr>]
                       else ns1)
            in if \<not> al_FreeSize s < al_FreeCapacity s then Inl ContractViolation
               else
                 Inr (s\<lparr>al_Nodes := ns2[nodeIndex := destruct_at (ns2 ! nodeIndex)],
                        al_FreeNodes := al_FreeNodes s @ [nodeIndex],
                        al_Size := al_Size s - 1\<rparr>))"

text \<open>In \<open>al_insert_at\<close> the value is read for \<^verbatim>\<open>node.value = value\<close>, after the node at the
  position has been copied into the new slot.\<close>

definition al_insert_at ::
  "bool \<Rightarrow> nat \<Rightarrow> nat \<Rightarrow> 'a arg \<Rightarrow> 'a LvnINode list \<Rightarrow> error + 'a LvnINode list" where
  "al_insert_at freed currentNodeIndex nodeIndex val ns =
     (let ns1 = ns[nodeIndex := ns ! currentNodeIndex];
          ns2 = ns1[nodeIndex := (ns1 ! nodeIndex)
                      \<lparr>node_prev := currentNodeIndex, node_hasPrev := True, node_taken := True\<rparr>]
      in case al_read freed ns2 val of
           Inl e \<Rightarrow> Inl e
         | Inr x \<Rightarrow>
             Inr (ns2[currentNodeIndex := (ns2 ! currentNodeIndex)
                        \<lparr>node_value := x, node_next := nodeIndex, node_hasNext := True\<rparr>]))"

definition al_insert_index ::
  "(nat \<Rightarrow> 'a LvnINode) \<Rightarrow> nat \<Rightarrow> 'a arg \<Rightarrow> 'a LvnArenaList \<Rightarrow> error + 'a LvnArenaList" where
  "al_insert_index fresh index val s =
     (if \<not> index \<le> al_Size s then Inl ContractViolation
      else if index = 0 then al_push_front fresh val s
      else if index = al_Size s then al_push_back fresh val s
      else
        let s1 = (if al_Size s \<ge> al_Capacity s then al_reserve fresh (al_Size s + 1) s else s)
        in case node_index s1 index of
             Inl e \<Rightarrow> Inl e
           | Inr currentNodeIndex \<Rightarrow>
               let ns = al_Nodes s1 in
               if al_FreeSize s1 \<noteq> 0 then
                 let nodeIndex = al_FreeNodes s1 ! (al_FreeSize s1 - 1)
                 in (case al_insert_at (al_Size s \<ge> al_Capacity s) currentNodeIndex nodeIndex
                            val ns of
                       Inl e \<Rightarrow> Inl e
                     | Inr ns3 \<Rightarrow>
                         Inr (s1\<lparr>al_Nodes := ns3,
                                 al_Tail := (if index = al_Size s1 - 1 then nodeIndex
                                             else al_Tail s1),
                                 al_Size := al_Size s1 + 1,
                                 al_FreeNodes := butlast (al_FreeNodes s1)\<rparr>))
               else
                 (case find_untaken s1 of
                    Some i \<Rightarrow>
                      let ns0 = (if node_hasNext (ns ! currentNodeIndex)
                                 then ns[node_next (ns ! currentNodeIndex) :=
                                           (ns ! node_next (ns ! currentNodeIndex))
                                             \<lparr>node_prev := i\<rparr>]
                                 else ns)
                      in (case al_insert_at (al_Size s \<ge> al_Capacity s) currentNodeIndex i
                                 val ns0 of
                            Inl e \<Rightarrow> Inl e
                          | Inr ns3 \<Rightarrow>
                              Inr (s1\<lparr>al_Nodes := ns3,
                                      al_Tail := (if index = al_Size s1 - 1 then i
                                                  else al_Tail s1),
                                      al_Size := al_Size s1 + 1\<rparr>))
                  | None \<Rightarrow> Inl ContractViolation))"

text \<open>Sequences of operations.\<close>

datatype 'a al_op =
    AlPushBack "'a arg" | AlPushFront "'a arg" | AlInsertIndex nat "'a arg" | AlEraseIndex nat
  | AlPopBack | AlPopFront | AlReserve nat

text \<open>
  In a sequence an argument \<open>Element j\<close> stands for \<^verbatim>\<open>l[j]\<close>, the element at position \<open>j\<close>:
  \<^verbatim>\<open>operator[]\<close> is \<^verbatim>\<open>at_index\<close>, which asserts the range, walks \<open>j\<close> links from the head as
  \<^verbatim>\<open>node_index\<close> does and returns the reference to the value in the slot it arrives at.
\<close>

definition al_ref :: "'a LvnArenaList \<Rightarrow> 'a arg \<Rightarrow> error + 'a arg" where
  "al_ref s a =
     (case a of
        Value x \<Rightarrow> Inr (Value x)
      | Element j \<Rightarrow> (case node_index s j of Inl e \<Rightarrow> Inl e | Inr i \<Rightarrow> Inr (Element i)))"

fun al_step :: "(nat \<Rightarrow> 'a LvnINode) \<Rightarrow> 'a al_op \<Rightarrow> 'a LvnArenaList \<Rightarrow> error + 'a LvnArenaList" where
  "al_step fresh (AlPushBack x) s =
     (case al_ref s x of Inl e \<Rightarrow> Inl e | Inr r \<Rightarrow> al_push_back fresh r s)"
| "al_step fresh (AlPushFront x) s =
     (case al_ref s x of Inl e \<Rightarrow> Inl e | Inr r \<Rightarrow> al_push_front fresh r s)"
| "al_step fresh (AlInsertIndex i x) s =
     (case al_ref s x of Inl e \<Rightarrow> Inl e | Inr r \<Rightarrow> al_insert_index fresh i r s)"
| "al_step fresh (AlEraseIndex i) s = al_erase_index i s"
| "al_step fresh AlPopBack s = al_pop_back s"
| "al_step fresh AlPopFront s = al_pop_front s"
| "al_step fresh (AlReserve n) s = Inr (al_reserve fresh n s)"

fun al_run :: "(nat \<Rightarrow> 'a LvnINode) \<Rightarrow> 'a al_op list \<Rightarrow> 'a LvnArenaList \<Rightarrow> error + 'a LvnArenaList" where
  "al_run fresh [] s = Inr s"
| "al_run fresh (op # ops) s =
     (case al_step fresh op s of Inl e \<Rightarrow> Inl e | Inr s' \<Rightarrow> al_run fresh ops s')"

text \<open>
  Walking the list: from the head along \<^verbatim>\<open>next\<close> while \<^verbatim>\<open>hasNext\<close> is set, from the tail
  along \<^verbatim>\<open>prev\<close> while \<^verbatim>\<open>hasPrev\<close> is set, for at most \<^verbatim>\<open>capacity\<close> nodes; an empty list
  has no node to visit. \<open>al_taken_count\<close> counts the nodes with \<^verbatim>\<open>taken\<close> set.
\<close>

fun walk_next :: "'a LvnINode list \<Rightarrow> nat \<Rightarrow> nat \<Rightarrow> nat list" where
  "walk_next ns 0 i = []"
| "walk_next ns (Suc n) i =
     i # (if node_hasNext (ns ! i) then walk_next ns n (node_next (ns ! i)) else [])"

fun walk_prev :: "'a LvnINode list \<Rightarrow> nat \<Rightarrow> nat \<Rightarrow> nat list" where
  "walk_prev ns 0 i = []"
| "walk_prev ns (Suc n) i =
     i # (if node_hasPrev (ns ! i) then walk_prev ns n (node_prev (ns ! i)) else [])"

definition al_forward :: "'a LvnArenaList \<Rightarrow> nat list" where
  "al_forward s =
     (if al_Size s = 0 then [] else walk_next (al_Nodes s) (al_Capacity s) (al_Head s))"

definition al_backward :: "'a LvnArenaList \<Rightarrow> nat list" where
  "al_backward s =
     (if al_Size s = 0 then [] else walk_prev (al_Nodes s) (al_Capacity s) (al_Tail s))"

definition al_values :: "'a LvnArenaList \<Rightarrow> nat list \<Rightarrow> 'a list" where
  "al_values s is = map (\<lambda>i. node_value (al_Nodes s ! i)) is"

definition al_taken_count :: "'a LvnArenaList \<Rightarrow> nat" where
  "al_taken_count s = length (filter node_taken (al_Nodes s))"

definition node_zero :: "'a \<Rightarrow> 'a LvnINode" where
  "node_zero x = \<lparr>node_next = 0, node_prev = 0, node_hasPrev = False, node_hasNext = False,
                  node_taken = False, node_value = x\<rparr>"

text \<open>What each operation means on the list of values.\<close>

fun al_list_step :: "'a al_op \<Rightarrow> 'a list \<Rightarrow> 'a list" where
  "al_list_step (AlPushBack x) xs = xs @ [arg_value x xs]"
| "al_list_step (AlPushFront x) xs = arg_value x xs # xs"
| "al_list_step (AlInsertIndex i x) xs = take i xs @ arg_value x xs # drop i xs"
| "al_list_step (AlEraseIndex i) xs = take i xs @ drop (Suc i) xs"
| "al_list_step AlPopBack xs = butlast xs"
| "al_list_step AlPopFront xs = tl xs"
| "al_list_step (AlReserve n) xs = xs"

fun al_list_run :: "'a al_op list \<Rightarrow> 'a list \<Rightarrow> 'a list" where
  "al_list_run [] xs = xs"
| "al_list_run (op # ops) xs = al_list_run ops (al_list_step op xs)"

text \<open>The four properties as the specification states them, for a list expected to hold
  the values \<open>expected\<close>.\<close>

definition al_claimed :: "'a LvnArenaList \<Rightarrow> 'a list \<Rightarrow> bool" where
  "al_claimed s expected \<longleftrightarrow>
     al_taken_count s = al_Size s \<and>
     al_FreeSize s = al_Capacity s - al_Size s \<and>
     length (al_forward s) = al_Size s \<and> distinct (al_forward s) \<and>
     al_values s (al_forward s) = expected \<and>
     al_values s (al_backward s) = rev expected"

text \<open>Three sequences on a list of integers: one that empties the list and pushes
  again, one that inserts inside the list after an erasure, one that only reserves.\<close>

definition al_refill :: "nat al_op list" where
  "al_refill = [AlPushBack (Value 1), AlPushBack (Value 2), AlPopFront, AlPopFront,
                AlPushBack (Value 3), AlPushBack (Value 4)]"

definition al_reinsert :: "nat al_op list" where
  "al_reinsert = [AlPushBack (Value 1), AlPushBack (Value 2), AlPushBack (Value 3),
                  AlPushBack (Value 4), AlEraseIndex 1, AlInsertIndex 1 (Value 9)]"

section \<open>Memory pool and object lifetime\<close>

text \<open>
  \<^verbatim>\<open>createContextMemoryPool\<close>, \<^verbatim>\<open>createMemoryBlock\<close>, \<^verbatim>\<open>createObject\<close>, \<^verbatim>\<open>destroyObject\<close> and the
  part of \<^verbatim>\<open>createContext\<close> in front of the window, graphics, audio and networking
  back ends, all of \<^verbatim>\<open>src/src/levikno.cpp\<close>. The enumerations and the two configuration
  structures are those of \<^verbatim>\<open>levikno.h\<close>. Unsigned 64-bit quantities are natural numbers,
  with the reduction modulo \<open>2 ^ 64\<close> written where the code computes them. The arrays that
  the configuration passes as a pointer and a count are lists.
\<close>

datatype LvnStructureType =
    Lvn_Stype_Undefined
  | Lvn_Stype_Window
  | Lvn_Stype_Logger
  | Lvn_Stype_FrameBuffer
  | Lvn_Stype_Shader
  | Lvn_Stype_DescriptorLayout
  | Lvn_Stype_Pipeline
  | Lvn_Stype_Buffer
  | Lvn_Stype_Sampler
  | Lvn_Stype_Texture
  | Lvn_Stype_Cubemap
  | Lvn_Stype_Sound
  | Lvn_Stype_Socket
  | Lvn_Stype_Max_Value

fun stype_index :: "LvnStructureType \<Rightarrow> nat" where
  "stype_index Lvn_Stype_Undefined = 0"
| "stype_index Lvn_Stype_Window = 1"
| "stype_index Lvn_Stype_Logger = 2"
| "stype_index Lvn_Stype_FrameBuffer = 3"
| "stype_index Lvn_Stype_Shader = 4"
| "stype_index Lvn_Stype_DescriptorLayout = 5"
| "stype_index Lvn_Stype_Pipeline = 6"
| "stype_index Lvn_Stype_Buffer = 7"
| "stype_index Lvn_Stype_Sampler = 8"
| "stype_index Lvn_Stype_Texture = 9"
| "stype_index Lvn_Stype_Cubemap = 10"
| "stype_index Lvn_Stype_Sound = 11"
| "stype_index Lvn_Stype_Socket = 12"
| "stype_index Lvn_Stype_Max_Value = 13"

text \<open>The enumerants below \<^verbatim>\<open>Lvn_Stype_Max_Value\<close>, in order: \<^verbatim>\<open>(LvnStructureType)i\<close> for
  \<open>i = 0, ..., 12\<close>.\<close>

definition stypes :: "LvnStructureType list" where
  "stypes = [Lvn_Stype_Undefined, Lvn_Stype_Window, Lvn_Stype_Logger, Lvn_Stype_FrameBuffer,
     Lvn_Stype_Shader, Lvn_Stype_DescriptorLayout, Lvn_Stype_Pipeline, Lvn_Stype_Buffer,
     Lvn_Stype_Sampler, Lvn_Stype_Texture, Lvn_Stype_Cubemap, Lvn_Stype_Sound,
     Lvn_Stype_Socket]"

datatype LvnResult =
    Lvn_Result_Success
  | Lvn_Result_Failure
  | Lvn_Result_AlreadyCalled
  | Lvn_Result_MemAllocFailure
  | Lvn_Result_TimeOut

datatype LvnMemAllocMode = Lvn_MemAllocMode_Individual | Lvn_MemAllocMode_MemPool

record LvnMemoryBindingInfo =
  bi_sType :: LvnStructureType
  bi_count :: nat

record LvnContextCreateInfo =
  ci_enableLogging :: bool
  ci_disableCoreLogging :: bool
  ci_memAllocMode :: LvnMemAllocMode
  ci_pMemoryBindings :: "LvnMemoryBindingInfo list"
  ci_pBlockMemoryBindings :: "LvnMemoryBindingInfo list"

text \<open>
  An element of \<^verbatim>\<open>sTypeMemAllocInfos\<close> and \<^verbatim>\<open>blockMemAllocInfos\<close>. Its structure is declared
  in \<^verbatim>\<open>levikno_internal.h\<close>, which is not among the sources; the fields are the members
  \<^verbatim>\<open>sType\<close>, \<^verbatim>\<open>size\<close> and \<^verbatim>\<open>count\<close> that the code reads and writes, in the order of the
  initialisers \<^verbatim>\<open>{ Lvn_Stype_Window, sizeof(LvnWindow), 8 }\<close>.
\<close>

record sTypeMemAllocInfo =
  si_sType :: LvnStructureType
  si_size :: nat
  si_count :: nat

text \<open>
  Addresses. \<open>BlockPtr b off\<close> is byte \<open>off\<close> of the buffer of memory block number \<open>b\<close>,
  \<open>HeapPtr n\<close> the block returned by the \<open>n\<close>-th \<^verbatim>\<open>new T()\<close>. A pointer to an
  \<^verbatim>\<open>LvnMemoryBinding\<close> is the pair of the array it lies in and its index there.
\<close>

datatype ptr = BlockPtr nat nat | HeapPtr nat

type_synonym binding_ptr = "nat \<times> nat"

text \<open>Modelled from the spec: the class \<^verbatim>\<open>LvnMemoryBlock\<close>, declared in
  \<^verbatim>\<open>levikno_internal.h\<close>, which is not among the sources. A memory block owns one raw
  buffer of a fixed size and gives access to its offsets; the buffers are numbered in the
  order they are allocated.\<close>

record LvnMemoryBlock =
  blk_id :: nat
  blk_size :: nat

text \<open>Modelled from the spec: the class \<^verbatim>\<open>LvnMemoryBinding\<close>, declared in the same missing
  header. A binding has a base pointer into a block, the size of one slot, the number of
  slots, a list of the indices of reclaimed slots, a cursor over the slots never used
  and an optional pointer to the next binding of the chain.\<close>

record LvnMemoryBinding =
  mb_block :: nat
  mb_offset :: nat
  mb_elementSize :: nat
  mb_count :: nat
  mb_freeList :: "nat list"
  mb_cursor :: nat
  mb_next :: "binding_ptr option"

text \<open>
  The container of the bindings of one structure type is declared in the same missing
  header. The code calls \<^verbatim>\<open>operator[]\<close>, \<^verbatim>\<open>push_back\<close>, \<^verbatim>\<open>back\<close> and \<^verbatim>\<open>empty\<close> on it, which of
  the containers of \<^verbatim>\<open>levikno.h\<close> the classes \<^verbatim>\<open>LvnVector\<close> and \<^verbatim>\<open>LvnArenaList\<close> offer, and
  both keep their elements in one array that \<^verbatim>\<open>push_back\<close> on a full container replaces:
  \<^verbatim>\<open>reserve(m_Size + 1)\<close> takes a new array of exactly that size, copies the elements and
  hands the old array to \<^verbatim>\<open>memDelete\<close>. It is modelled as the \<^verbatim>\<open>LvnVector\<close> that the
  specification names. \<^verbatim>\<open>createMemoryBlock\<close> and \<^verbatim>\<open>createObject\<close> keep a pointer and a
  reference to elements across a \<^verbatim>\<open>push_back\<close>, so the element arrays lie in a store of
  their own, \<open>bindingArrays\<close>: a vector holds the number of its array (\<open>None\<close> for
  \<^verbatim>\<open>nullptr\<close>), and an array that \<^verbatim>\<open>memDelete\<close> has destructed and freed stays in the
  store, marked as not live.
\<close>

record binding_array =
  ba_live :: bool
  ba_cells :: "LvnMemoryBinding list"

record binding_vector =
  bv_Data :: "nat option"
  bv_Size :: nat
  bv_Capacity :: nat

text \<open>Modelled from the spec: the class \<^verbatim>\<open>LvnMemoryPool\<close>, declared in the same missing
  header. The pool owns the base block and, for each structure type, a vector of further
  blocks and a vector of bindings.\<close>

record LvnMemoryPool =
  baseMemoryBlock :: "LvnMemoryBlock option"
  memBlocks :: "LvnMemoryBlock list list"
  memBindings :: "binding_vector list"

datatype log_msg =
    ZeroCountMemoryBinding nat
  | ZeroCountBlockMemoryBinding nat
  | MemoryPoolCreated nat nat nat

datatype log_entry = LogError log_msg | LogTrace log_msg

text \<open>
  The context \<^verbatim>\<open>LvnContext\<close> (declared in the same missing header), with the members the
  functions below use. The fields from \<open>logOutput\<close> on are not members: they are the memory and the output around the context, the lines
  printed by the loggers, the store of binding arrays, the number of memory blocks
  allocated so far, the number of objects allocated by \<^verbatim>\<open>new\<close>, the objects that are
  constructed, the destructor calls in the order they were made and the heap blocks
  given back by \<^verbatim>\<open>delete\<close>. Allocation is taken to succeed.
\<close>

record LvnContext =
  logging :: bool
  enableCoreLogging :: bool
  memoryMode :: LvnMemAllocMode
  sTypeMemAllocInfos :: "sTypeMemAllocInfo list"
  blockMemAllocInfos :: "sTypeMemAllocInfo list"
  memoryPool :: LvnMemoryPool
  objectMemoryAllocations :: "(LvnStructureType \<times> nat) list"
  logOutput :: "log_entry list"
  bindingArrays :: "binding_array list"
  numBlocks :: nat
  numHeapObjects :: nat
  liveObjects :: "ptr list"
  destructorCalls :: "ptr list"
  freedHeap :: "ptr list"

definition LvnContext_new :: LvnContext where
  "LvnContext_new =
     \<lparr>logging = False, enableCoreLogging = False, memoryMode = Lvn_MemAllocMode_Individual,
      sTypeMemAllocInfos = [], blockMemAllocInfos = [],
      memoryPool = \<lparr>baseMemoryBlock = None, memBlocks = [], memBindings = []\<rparr>,
      objectMemoryAllocations = [], logOutput = [], bindingArrays = [], numBlocks = 0,
      numHeapObjects = 0, liveObjects = [], destructorCalls = [], freedHeap = []\<rparr>"

subsection \<open>Logging\<close>

text \<open>
  \<^verbatim>\<open>initLogging\<close> sets the two switches; the level of the core logger is
  \<^verbatim>\<open>Lvn_LogLevel_None\<close>, below every message level. \<^verbatim>\<open>LVN_CORE_ERROR\<close> and \<^verbatim>\<open>LVN_CORE_TRACE\<close>
  are \<^verbatim>\<open>logMessageError\<close> and \<^verbatim>\<open>logMessageTrace\<close> on the core logger: they return without
  output unless both switches are on.
\<close>

definition initLogging :: "LvnContextCreateInfo \<Rightarrow> LvnContext \<Rightarrow> LvnContext" where
  "initLogging ci ctx =
     (let c = ctx\<lparr>enableCoreLogging := \<not> ci_disableCoreLogging ci\<rparr>
      in if ci_enableLogging ci then c\<lparr>logging := True\<rparr> else c)"

definition LVN_CORE_ERROR :: "log_msg \<Rightarrow> LvnContext \<Rightarrow> LvnContext" where
  "LVN_CORE_ERROR m ctx =
     (if \<not> logging ctx then ctx
      else if \<not> enableCoreLogging ctx then ctx
      else ctx\<lparr>logOutput := logOutput ctx @ [LogError m]\<rparr>)"

definition LVN_CORE_TRACE :: "log_msg \<Rightarrow> LvnContext \<Rightarrow> LvnContext" where
  "LVN_CORE_TRACE m ctx =
     (if \<not> logging ctx then ctx
      else if \<not> enableCoreLogging ctx then ctx
      else ctx\<lparr>logOutput := logOutput ctx @ [LogTrace m]\<rparr>)"

subsection \<open>Vectors of bindings\<close>

text \<open>
  \<^verbatim>\<open>LvnVector::reserve\<close>, \<^verbatim>\<open>push_back\<close>, \<^verbatim>\<open>operator[]\<close> and \<^verbatim>\<open>back\<close> on a vector of bindings.
  \<^verbatim>\<open>reserve\<close> returns when the capacity suffices; otherwise it takes a new array of exactly
  the requested size, copies the elements and hands the old array to \<^verbatim>\<open>memDelete\<close>.
  \<^verbatim>\<open>push_back\<close> is \<^verbatim>\<open>resize(m_Size + 1)\<close>, which reserves and constructs one element, and the
  assignment of the value to it. \<^verbatim>\<open>operator[]\<close> and \<^verbatim>\<open>back\<close> return a reference, here the
  pointer to the element.
\<close>

definition bv_new :: binding_vector where
  "bv_new = \<lparr>bv_Data = None, bv_Size = 0, bv_Capacity = 0\<rparr>"

definition bv_reserve ::
  "nat \<Rightarrow> binding_vector \<Rightarrow> binding_array list \<Rightarrow> binding_vector \<times> binding_array list" where
  "bv_reserve n v h =
     (if n \<le> bv_Capacity v then (v, h)
      else
        let cells = (case bv_Data v of None \<Rightarrow> []
                     | Some a \<Rightarrow> take (bv_Size v) (ba_cells (h ! a)));
            h1 = (case bv_Data v of None \<Rightarrow> h
                  | Some a \<Rightarrow> h[a := (h ! a)\<lparr>ba_live := False\<rparr>])
        in (v\<lparr>bv_Data := Some (length h1), bv_Capacity := n\<rparr>,
            h1 @ [\<lparr>ba_live = True, ba_cells = cells\<rparr>]))"

definition bv_push_back ::
  "LvnMemoryBinding \<Rightarrow> binding_vector \<Rightarrow> binding_array list \<Rightarrow>
     binding_vector \<times> binding_array list" where
  "bv_push_back val v h =
     (case bv_reserve (bv_Size v + 1) v h of
        (v1, h1) \<Rightarrow>
          (case bv_Data v1 of
             None \<Rightarrow> (v1, h1)
           | Some a \<Rightarrow>
               (v1\<lparr>bv_Size := bv_Size v + 1\<rparr>,
                h1[a := (h1 ! a)\<lparr>ba_cells := take (bv_Size v) (ba_cells (h1 ! a)) @ [val]\<rparr>])))"

definition bv_index :: "binding_vector \<Rightarrow> nat \<Rightarrow> error + binding_ptr" where
  "bv_index v i =
     (if i < bv_Size v
      then (case bv_Data v of None \<Rightarrow> Inl ContractViolation | Some a \<Rightarrow> Inr (a, i))
      else Inl ContractViolation)"

definition bv_back :: "binding_vector \<Rightarrow> error + binding_ptr" where
  "bv_back v =
     (if 0 < bv_Size v
      then (case bv_Data v of None \<Rightarrow> Inl ContractViolation
            | Some a \<Rightarrow> Inr (a, bv_Size v - 1))
      else Inl ContractViolation)"

text \<open>Reading and writing a binding through a pointer. An array that is not live has
  been freed.\<close>

definition binding_at :: "binding_array list \<Rightarrow> binding_ptr \<Rightarrow> error + LvnMemoryBinding" where
  "binding_at h p =
     (case p of (a, i) \<Rightarrow>
        if a < length h \<and> ba_live (h ! a)
        then (if i < length (ba_cells (h ! a)) then Inr (ba_cells (h ! a) ! i)
              else Inl OutOfBounds)
        else Inl DanglingPointer)"

definition binding_put ::
  "binding_array list \<Rightarrow> binding_ptr \<Rightarrow> LvnMemoryBinding \<Rightarrow> binding_array list" where
  "binding_put h p b =
     (case p of (a, i) \<Rightarrow> h[a := (h ! a)\<lparr>ba_cells := (ba_cells (h ! a))[i := b]\<rparr>])"

text \<open>\<^verbatim>\<open>LvnVector::resize\<close> on a vector of default-constructible elements.\<close>

definition resize_to :: "nat \<Rightarrow> 'a \<Rightarrow> 'a list \<Rightarrow> 'a list" where
  "resize_to n d xs = take n xs @ replicate (n - length xs) d"

subsection \<open>The binding\<close>

text \<open>
  The constructor and the member functions of \<^verbatim>\<open>LvnMemoryBinding\<close> are declared with the
  class in \<^verbatim>\<open>levikno_internal.h\<close>, which is not among the sources; each is modelled from
  the specification's description of it.
\<close>

text \<open>Modelled from the spec: the constructor \<^verbatim>\<open>LvnMemoryBinding(basePtr, elementSize,
  count)\<close>, missing with the class. It claims \<open>count\<close> slots of \<open>elementSize\<close> bytes from the
  base pointer, with an empty free list and the cursor at 0.\<close>

definition MemoryBinding_new :: "nat \<Rightarrow> nat \<Rightarrow> nat \<Rightarrow> nat \<Rightarrow> LvnMemoryBinding" where
  "MemoryBinding_new blk off elementSize cnt =
     \<lparr>mb_block = blk, mb_offset = off, mb_elementSize = elementSize, mb_count = cnt,
      mb_freeList = [], mb_cursor = 0, mb_next = None\<rparr>"

text \<open>Modelled from the spec: \<^verbatim>\<open>LvnMemoryBinding::find_empty_memory_binding\<close>, missing
  with the class. It returns the binding itself if it has a free slot, which is that its
  free list is not empty or its cursor is below \<open>count\<close>, else what the next binding
  returns, else null. The walk along \<^verbatim>\<open>next\<close> is given as many steps as there are
  bindings in the store, \<open>binding_cells\<close>; a walk that needs more goes round a cycle.\<close>

definition has_free_slot :: "LvnMemoryBinding \<Rightarrow> bool" where
  "has_free_slot b \<longleftrightarrow> mb_freeList b \<noteq> [] \<or> mb_cursor b < mb_count b"

fun find_empty_memory_binding ::
  "nat \<Rightarrow> binding_array list \<Rightarrow> binding_ptr \<Rightarrow> error + binding_ptr option" where
  "find_empty_memory_binding fuel h p =
     (case binding_at h p of
        Inl e \<Rightarrow> Inl e
      | Inr b \<Rightarrow>
          if has_free_slot b then Inr (Some p)
          else (case mb_next b of
                  None \<Rightarrow> Inr None
                | Some q \<Rightarrow>
                    (case fuel of
                       0 \<Rightarrow> Inl Diverges
                     | Suc f \<Rightarrow> find_empty_memory_binding f h q)))"

definition binding_cells :: "binding_array list \<Rightarrow> nat" where
  "binding_cells h = sum_list (map (\<lambda>a. length (ba_cells a)) h)"

text \<open>Modelled from the spec: \<^verbatim>\<open>LvnMemoryBinding::take_next\<close>, missing with the class. If
  the free list is not empty it pops the slot appended last (the free list is last in,
  first out); else it returns the slot under the cursor, \<^verbatim>\<open>basePtr + cursor * elementSize\<close>,
  and advances the cursor.\<close>

definition slot_ptr :: "LvnMemoryBinding \<Rightarrow> nat \<Rightarrow> ptr" where
  "slot_ptr b k = BlockPtr (mb_block b) (mb_offset b + k * mb_elementSize b)"

definition take_next ::
  "binding_array list \<Rightarrow> binding_ptr \<Rightarrow> error + (ptr \<times> binding_array list)" where
  "take_next h p =
     (case binding_at h p of
        Inl e \<Rightarrow> Inl e
      | Inr b \<Rightarrow>
          if mb_freeList b \<noteq> []
          then Inr (slot_ptr b (last (mb_freeList b)),
                    binding_put h p (b\<lparr>mb_freeList := butlast (mb_freeList b)\<rparr>))
          else Inr (slot_ptr b (mb_cursor b),
                    binding_put h p (b\<lparr>mb_cursor := mb_cursor b + 1\<rparr>)))"

text \<open>Modelled from the spec: the member template \<^verbatim>\<open>LvnMemoryBinding::push_back<T>\<close>,
  missing with the class. It computes the slot index of the object from its address
  offset, \<open>slot_of\<close>, and appends it to the free list; an address that is not a slot of
  this binding violates its precondition. \<^verbatim>\<open>destroyObject\<close> is specified to run the
  destructor of the object in place, unless the type is trivially destructible, before
  the slot is returned; the pool branch of \<^verbatim>\<open>destroyObject\<close> in the source is the call of
  \<^verbatim>\<open>push_back\<close> on a \<^verbatim>\<open>T*\<close> and nothing else, so the member template is taken to make that
  call, \<open>destruct_object\<close>.\<close>

definition slot_of :: "LvnMemoryBinding \<Rightarrow> ptr \<Rightarrow> nat option" where
  "slot_of b obj =
     (case obj of
        HeapPtr n \<Rightarrow> None
      | BlockPtr blk off \<Rightarrow>
          if blk = mb_block b \<and> mb_offset b \<le> off \<and> 0 < mb_elementSize b \<and>
             (off - mb_offset b) mod mb_elementSize b = 0 \<and>
             (off - mb_offset b) div mb_elementSize b < mb_count b
          then Some ((off - mb_offset b) div mb_elementSize b)
          else None)"

definition destruct_object :: "bool \<Rightarrow> ptr \<Rightarrow> LvnContext \<Rightarrow> LvnContext" where
  "destruct_object trivially_destructible obj ctx =
     (if trivially_destructible then ctx\<lparr>liveObjects := removeAll obj (liveObjects ctx)\<rparr>
      else ctx\<lparr>liveObjects := removeAll obj (liveObjects ctx),
               destructorCalls := destructorCalls ctx @ [obj]\<rparr>)"

definition binding_push_back ::
  "bool \<Rightarrow> binding_ptr \<Rightarrow> ptr \<Rightarrow> LvnContext \<Rightarrow> error + LvnContext" where
  "binding_push_back trivially_destructible p obj ctx =
     (case binding_at (bindingArrays ctx) p of
        Inl e \<Rightarrow> Inl e
      | Inr b \<Rightarrow>
          (case slot_of b obj of
             None \<Rightarrow> Inl ContractViolation
           | Some k \<Rightarrow>
               let c = destruct_object trivially_destructible obj ctx
               in Inr (c\<lparr>bindingArrays :=
                          binding_put (bindingArrays c) p
                            (b\<lparr>mb_freeList := mb_freeList b @ [k]\<rparr>)\<rparr>)))"

text \<open>Modelled from the spec: \<^verbatim>\<open>LvnMemoryBinding::set_next_memory_binding\<close>, missing with
  the class. It stores the pointer to the next binding of the chain.\<close>

definition set_next_memory_binding ::
  "binding_ptr \<Rightarrow> binding_ptr \<Rightarrow> binding_array list \<Rightarrow> error + binding_array list" where
  "set_next_memory_binding p nxt h =
     (case binding_at h p of
        Inl e \<Rightarrow> Inl e
      | Inr b \<Rightarrow> Inr (binding_put h p (b\<lparr>mb_next := Some nxt\<rparr>)))"

subsection \<open>Creating the pool\<close>

text \<open>\<^verbatim>\<open>setDefaultStructTypeMemAllocInfos\<close>; the sizes \<^verbatim>\<open>sizeof(LvnWindow)\<close>, ... are the
  parameter \<open>sizeofT\<close>.\<close>

definition default_count :: "LvnStructureType \<Rightarrow> nat" where
  "default_count t =
     (case t of
        Lvn_Stype_Undefined \<Rightarrow> 0
      | Lvn_Stype_Window \<Rightarrow> 8
      | Lvn_Stype_Logger \<Rightarrow> 8
      | Lvn_Stype_FrameBuffer \<Rightarrow> 16
      | Lvn_Stype_Shader \<Rightarrow> 32
      | Lvn_Stype_DescriptorLayout \<Rightarrow> 64
      | Lvn_Stype_Pipeline \<Rightarrow> 64
      | Lvn_Stype_Buffer \<Rightarrow> 256
      | Lvn_Stype_Sampler \<Rightarrow> 256
      | Lvn_Stype_Texture \<Rightarrow> 256
      | Lvn_Stype_Cubemap \<Rightarrow> 256
      | Lvn_Stype_Sound \<Rightarrow> 32
      | Lvn_Stype_Socket \<Rightarrow> 32
      | Lvn_Stype_Max_Value \<Rightarrow> 0)"

definition setDefaultStructTypeMemAllocInfos ::
  "(LvnStructureType \<Rightarrow> nat) \<Rightarrow> LvnContext \<Rightarrow> LvnContext" where
  "setDefaultStructTypeMemAllocInfos sizeofT ctx =
     ctx\<lparr>sTypeMemAllocInfos :=
           map (\<lambda>t. \<lparr>si_sType = t,
                      si_size = (if t = Lvn_Stype_Undefined then 0 else sizeofT t),
                      si_count = default_count t\<rparr>) stypes\<rparr>"

text \<open>
  The two loops over the configured bindings. A binding with a zero count ends the loop:
  the result is the index of that binding, for the message and the early return of the
  caller. Otherwise the count is stored at the entry of the structure type, through
  \<^verbatim>\<open>operator[]\<close> of the vector and its range assertion.
\<close>

fun set_counts ::
  "nat \<Rightarrow> LvnMemoryBindingInfo list \<Rightarrow> sTypeMemAllocInfo list \<Rightarrow>
     error + (nat option \<times> sTypeMemAllocInfo list)" where
  "set_counts i [] infos = Inr (None, infos)"
| "set_counts i (b # bs) infos =
     (if bi_count b = 0 then Inr (Some i, infos)
      else if stype_index (bi_sType b) < length infos
      then set_counts (Suc i) bs
             (infos[stype_index (bi_sType b) :=
                      (infos ! stype_index (bi_sType b))\<lparr>si_count := bi_count b\<rparr>])
      else Inl ContractViolation)"

text \<open>The sum \<^verbatim>\<open>memSize += structTypes[i].size * structTypes[i].count\<close>.\<close>

definition total_size :: "sTypeMemAllocInfo list \<Rightarrow> nat" where
  "total_size infos = fold (\<lambda>st acc. (acc + si_size st * si_count st) mod 2 ^ 64) infos 0"

text \<open>The loop that pushes the first binding of every structure type, all inside the
  base block \<open>blk\<close>, at the running offset \<open>memIndex\<close>.\<close>

fun base_bindings ::
  "sTypeMemAllocInfo list \<Rightarrow> nat \<Rightarrow> nat \<Rightarrow> binding_vector list \<Rightarrow> binding_array list \<Rightarrow>
     error + (binding_vector list \<times> binding_array list)" where
  "base_bindings [] blk memIndex vs h = Inr (vs, h)"
| "base_bindings (st # sts) blk memIndex vs h =
     (if stype_index (si_sType st) < length vs
      then (case bv_push_back (MemoryBinding_new blk memIndex (si_size st) (si_count st))
                   (vs ! stype_index (si_sType st)) h of
              (v1, h1) \<Rightarrow>
                base_bindings sts blk ((memIndex + si_count st * si_size st) mod 2 ^ 64)
                  (vs[stype_index (si_sType st) := v1]) h1)
      else Inl ContractViolation)"

definition createContextMemoryPool ::
  "(LvnStructureType \<Rightarrow> nat) \<Rightarrow> LvnContext \<Rightarrow> LvnContextCreateInfo \<Rightarrow>
     error + (LvnResult \<times> LvnContext)" where
  "createContextMemoryPool sizeofT lvnctx createInfo =
     (let c1 = (setDefaultStructTypeMemAllocInfos sizeofT lvnctx)
                 \<lparr>memoryMode := ci_memAllocMode createInfo\<rparr>
      in if memoryMode c1 = Lvn_MemAllocMode_Individual then Inr (Lvn_Result_Success, c1)
         else
           let c2 = c1\<lparr>blockMemAllocInfos := sTypeMemAllocInfos c1\<rparr>
           in (case set_counts 0 (ci_pMemoryBindings createInfo) (sTypeMemAllocInfos c2) of
                 Inl e \<Rightarrow> Inl e
               | Inr (Some i, structTypes) \<Rightarrow>
                   Inr (Lvn_Result_Failure,
                        LVN_CORE_ERROR (ZeroCountMemoryBinding i)
                          (c2\<lparr>sTypeMemAllocInfos := structTypes\<rparr>))
               | Inr (None, structTypes) \<Rightarrow>
                   (let c3 = c2\<lparr>sTypeMemAllocInfos := structTypes\<rparr>;
                        memSize = total_size structTypes;
                        base = \<lparr>blk_id = numBlocks c3, blk_size = memSize\<rparr>;
                        pool = memoryPool c3
                    in (case base_bindings structTypes (blk_id base) 0
                               (resize_to (stype_index Lvn_Stype_Max_Value) bv_new
                                  (memBindings pool))
                               (bindingArrays c3) of
                          Inl e \<Rightarrow> Inl e
                        | Inr (vs, h) \<Rightarrow>
                            (let c4 = c3\<lparr>memoryPool :=
                                          \<lparr>baseMemoryBlock = Some base,
                                           memBlocks =
                                             resize_to (stype_index Lvn_Stype_Max_Value) []
                                               (memBlocks pool),
                                           memBindings = vs\<rparr>,
                                        bindingArrays := h,
                                        numBlocks := numBlocks c3 + 1\<rparr>
                             in (case set_counts 0 (ci_pBlockMemoryBindings createInfo)
                                        (blockMemAllocInfos c4) of
                                   Inl e \<Rightarrow> Inl e
                                 | Inr (Some i, blockInfos) \<Rightarrow>
                                     Inr (Lvn_Result_Failure,
                                          LVN_CORE_ERROR (ZeroCountBlockMemoryBinding i)
                                            (c4\<lparr>blockMemAllocInfos := blockInfos\<rparr>))
                                 | Inr (None, blockInfos) \<Rightarrow>
                                     Inr (Lvn_Result_Success,
                                          LVN_CORE_TRACE
                                            (MemoryPoolCreated
                                               (length (ci_pMemoryBindings createInfo))
                                               (length (ci_pBlockMemoryBindings createInfo))
                                               memSize)
                                            (c4\<lparr>blockMemAllocInfos := blockInfos\<rparr>))))))))"

text \<open>
  \<^verbatim>\<open>createContext\<close>, up to the back ends. \<open>s\<close> is the global \<^verbatim>\<open>s_LvnContext\<close>. The window,
  graphics, audio and networking initialisations that follow the memory pool are outside
  this development: \<open>backends\<close> is the first result among theirs that is not a success,
  or success.
\<close>

definition createContext ::
  "(LvnStructureType \<Rightarrow> nat) \<Rightarrow> LvnResult \<Rightarrow> LvnContext option \<Rightarrow> LvnContextCreateInfo \<Rightarrow>
     error + (LvnResult \<times> LvnContext option)" where
  "createContext sizeofT backends s createInfo =
     (case s of
        Some c \<Rightarrow> Inr (Lvn_Result_AlreadyCalled, s)
      | None \<Rightarrow>
          let c0 = initLogging createInfo LvnContext_new;
              c1 = c0\<lparr>objectMemoryAllocations := map (\<lambda>t. (t, 0)) stypes\<rparr>
          in (case createContextMemoryPool sizeofT c1 createInfo of
                Inl e \<Rightarrow> Inl e
              | Inr (result, c2) \<Rightarrow>
                  if result \<noteq> Lvn_Result_Success then Inr (result, Some c2)
                  else if backends \<noteq> Lvn_Result_Success then Inr (backends, Some c2)
                  else Inr (Lvn_Result_Success, Some c2)))"

subsection \<open>Creating and destroying objects\<close>

text \<open>
  \<^verbatim>\<open>createMemoryBlock\<close>, in two parts. The first runs up to and including
  \<^verbatim>\<open>memBinding.push_back(...)\<close>: it returns the pointer \<^verbatim>\<open>prevMemBinding\<close>, taken from
  \<^verbatim>\<open>&memBinding.back()\<close> before the push. The second is the final statement, which calls
  \<^verbatim>\<open>set_next_memory_binding(&memBinding.back())\<close> through that pointer.
\<close>

definition createMemoryBlock_push ::
  "LvnContext \<Rightarrow> LvnStructureType \<Rightarrow> error + (binding_ptr option \<times> LvnContext)" where
  "createMemoryBlock_push lvnctx sType =
     (let i = stype_index sType;
          pool = memoryPool lvnctx
      in if \<not> i < length (blockMemAllocInfos lvnctx) then Inl ContractViolation
         else if \<not> i < length (memBlocks pool) then Inl ContractViolation
         else if \<not> i < length (memBindings pool) then Inl ContractViolation
         else
           let sz = si_size (blockMemAllocInfos lvnctx ! i);
               cnt = si_count (blockMemAllocInfos lvnctx ! i);
               memsize = (sz * cnt) mod 2 ^ 64;
               blk = \<lparr>blk_id = numBlocks lvnctx, blk_size = memsize\<rparr>;
               memBinding = memBindings pool ! i;
               prevMemBinding = (if bv_Size memBinding = 0 then None
                                 else (case bv_back memBinding of
                                         Inl e \<Rightarrow> None | Inr p \<Rightarrow> Some p))
           in case bv_push_back (MemoryBinding_new (blk_id blk) 0 sz cnt) memBinding
                     (bindingArrays lvnctx) of
                (v1, h1) \<Rightarrow>
                  Inr (prevMemBinding,
                       lvnctx\<lparr>memoryPool :=
                                 pool\<lparr>memBlocks := (memBlocks pool)[i := memBlocks pool ! i @ [blk]],
                                      memBindings := (memBindings pool)[i := v1]\<rparr>,
                               bindingArrays := h1,
                               numBlocks := numBlocks lvnctx + 1\<rparr>))"

definition createMemoryBlock_link ::
  "binding_ptr option \<Rightarrow> LvnContext \<Rightarrow> LvnStructureType \<Rightarrow> error + LvnContext" where
  "createMemoryBlock_link prevMemBinding lvnctx sType =
     (case prevMemBinding of
        None \<Rightarrow> Inr lvnctx
      | Some p \<Rightarrow>
          and_then (bv_back (memBindings (memoryPool lvnctx) ! stype_index sType))
            (\<lambda>nxt. and_then (set_next_memory_binding p nxt (bindingArrays lvnctx))
               (\<lambda>h. Inr (lvnctx\<lparr>bindingArrays := h\<rparr>))))"

definition createMemoryBlock :: "LvnContext \<Rightarrow> LvnStructureType \<Rightarrow> error + LvnContext" where
  "createMemoryBlock lvnctx sType =
     and_then (createMemoryBlock_push lvnctx sType)
       (\<lambda>(prevMemBinding, c). createMemoryBlock_link prevMemBinding c sType)"

text \<open>The statements \<^verbatim>\<open>objectMemoryAllocations.sTypes[sType].count++\<close> and \<^verbatim>\<open>count--\<close> on
  the unsigned 64-bit counter.\<close>

definition count_incr :: "LvnStructureType \<Rightarrow> LvnContext \<Rightarrow> error + LvnContext" where
  "count_incr sType ctx =
     (let i = stype_index sType; cs = objectMemoryAllocations ctx
      in if i < length cs
         then Inr (ctx\<lparr>objectMemoryAllocations :=
                         cs[i := (fst (cs ! i), (snd (cs ! i) + 1) mod 2 ^ 64)]\<rparr>)
         else Inl ContractViolation)"

definition count_decr :: "LvnStructureType \<Rightarrow> LvnContext \<Rightarrow> error + LvnContext" where
  "count_decr sType ctx =
     (let i = stype_index sType; cs = objectMemoryAllocations ctx
      in if i < length cs
         then Inr (ctx\<lparr>objectMemoryAllocations :=
                         cs[i := (fst (cs ! i), (snd (cs ! i) + 2 ^ 64 - 1) mod 2 ^ 64)]\<rparr>)
         else Inl ContractViolation)"

definition live_count :: "LvnContext \<Rightarrow> LvnStructureType \<Rightarrow> nat" where
  "live_count ctx sType = snd (objectMemoryAllocations ctx ! stype_index sType)"

text \<open>The reference \<^verbatim>\<open>memoryPool.memBindings[sType][0]\<close>: two applications of
  \<^verbatim>\<open>operator[]\<close>, each with its range assertion.\<close>

definition base_binding_ref :: "LvnContext \<Rightarrow> LvnStructureType \<Rightarrow> error + binding_ptr" where
  "base_binding_ref ctx sType =
     (if stype_index sType < length (memBindings (memoryPool ctx))
      then bv_index (memBindings (memoryPool ctx) ! stype_index sType) 0
      else Inl ContractViolation)"

text \<open>
  \<^verbatim>\<open>createObject<T>\<close>. In pool mode the reference \<^verbatim>\<open>memBinding\<close> is taken first, and
  \<^verbatim>\<open>take_next\<close> is called through it after \<^verbatim>\<open>createMemoryBlock\<close> may have run. The memory
  mode is one of the two enumerants, so that the third branch of the source is not
  reached.
\<close>

definition createObject ::
  "LvnContext \<Rightarrow> LvnStructureType \<Rightarrow> error + (ptr \<times> LvnContext)" where
  "createObject lvnctx sType =
     (case memoryMode lvnctx of
        Lvn_MemAllocMode_Individual \<Rightarrow>
          let object = HeapPtr (numHeapObjects lvnctx);
              c = lvnctx\<lparr>numHeapObjects := numHeapObjects lvnctx + 1,
                         liveObjects := liveObjects lvnctx @ [object]\<rparr>
          in and_then (count_incr sType c) (\<lambda>c'. Inr (object, c'))
      | Lvn_MemAllocMode_MemPool \<Rightarrow>
          and_then (base_binding_ref lvnctx sType)
            (\<lambda>memBinding.
               and_then (find_empty_memory_binding (binding_cells (bindingArrays lvnctx))
                           (bindingArrays lvnctx) memBinding)
                 (\<lambda>found.
                    and_then (if found = None then createMemoryBlock lvnctx sType
                              else Inr lvnctx)
                      (\<lambda>c1.
                         and_then (take_next (bindingArrays c1) memBinding)
                           (\<lambda>(object, h).
                              and_then
                                (count_incr sType
                                   (c1\<lparr>bindingArrays := h,
                                       liveObjects := liveObjects c1 @ [object]\<rparr>))
                                (\<lambda>c2. Inr (object, c2)))))))"

text \<open>
  \<^verbatim>\<open>destroyObject<T>\<close>; \<open>trivially_destructible\<close> says whether \<^verbatim>\<open>T\<close> is. \<^verbatim>\<open>delete obj\<close> runs
  the destructor and gives the block back to the heap.
\<close>

definition destroyObject ::
  "bool \<Rightarrow> LvnContext \<Rightarrow> ptr \<Rightarrow> LvnStructureType \<Rightarrow> error + LvnContext" where
  "destroyObject trivially_destructible lvnctx obj sType =
     (case memoryMode lvnctx of
        Lvn_MemAllocMode_Individual \<Rightarrow>
          let c = destruct_object trivially_destructible obj lvnctx
          in count_decr sType (c\<lparr>freedHeap := freedHeap c @ [obj]\<rparr>)
      | Lvn_MemAllocMode_MemPool \<Rightarrow>
          and_then (base_binding_ref lvnctx sType)
            (\<lambda>memBinding.
               and_then (binding_push_back trivially_destructible memBinding obj lvnctx)
                 (count_decr sType)))"

subsection \<open>Observations\<close>

text \<open>Walking \<^verbatim>\<open>next\<close> from a binding: the bindings visited, in order.\<close>

fun binding_chain :: "nat \<Rightarrow> binding_array list \<Rightarrow> binding_ptr \<Rightarrow> error + binding_ptr list" where
  "binding_chain fuel h p =
     (case binding_at h p of
        Inl e \<Rightarrow> Inl e
      | Inr b \<Rightarrow>
          (case mb_next b of
             None \<Rightarrow> Inr [p]
           | Some q \<Rightarrow>
               (case fuel of
                  0 \<Rightarrow> Inl Diverges
                | Suc f \<Rightarrow> and_then (binding_chain f h q) (\<lambda>ps. Inr (p # ps)))))"

text \<open>The binding \<^verbatim>\<open>memBindings[sType][0]\<close>, if the reference is valid, and the slot of it
  that an address is, if it is one.\<close>

definition base_binding :: "LvnContext \<Rightarrow> LvnStructureType \<Rightarrow> LvnMemoryBinding option" where
  "base_binding ctx sType =
     (case base_binding_ref ctx sType of
        Inl e \<Rightarrow> None
      | Inr p \<Rightarrow> (case binding_at (bindingArrays ctx) p of Inl e \<Rightarrow> None | Inr b \<Rightarrow> Some b))"

definition base_slot :: "LvnContext \<Rightarrow> LvnStructureType \<Rightarrow> ptr \<Rightarrow> nat option" where
  "base_slot ctx sType obj =
     (case base_binding ctx sType of None \<Rightarrow> None | Some b \<Rightarrow> slot_of b obj)"

text \<open>The index of the first binding with a zero count, and the message that
  \<^verbatim>\<open>createContextMemoryPool\<close> has for a configuration: the loop over \<^verbatim>\<open>pMemoryBindings\<close> comes
  first.\<close>

fun first_zero :: "nat \<Rightarrow> LvnMemoryBindingInfo list \<Rightarrow> nat option" where
  "first_zero i [] = None"
| "first_zero i (b # bs) = (if bi_count b = 0 then Some i else first_zero (Suc i) bs)"

definition no_zero_count :: "sTypeMemAllocInfo list \<Rightarrow> bool" where
  "no_zero_count infos \<longleftrightarrow>
     (\<forall>info \<in> set infos. si_count info = 0 \<longrightarrow> si_sType info = Lvn_Stype_Undefined)"

definition zero_count_message :: "LvnContextCreateInfo \<Rightarrow> log_msg option" where
  "zero_count_message ci =
     (case first_zero 0 (ci_pMemoryBindings ci) of
        Some i \<Rightarrow> Some (ZeroCountMemoryBinding i)
      | None \<Rightarrow> map_option ZeroCountBlockMemoryBinding (first_zero 0 (ci_pBlockMemoryBindings ci)))"

text \<open>A pool configuration with a base binding of two buffers, a second one whose first
  binding has a zero count, and the context that \<^verbatim>\<open>createContext\<close> makes from the first,
  every object taken to be 8 bytes long.\<close>

definition two_buffers :: LvnContextCreateInfo where
  "two_buffers =
     \<lparr>ci_enableLogging = True, ci_disableCoreLogging = False,
      ci_memAllocMode = Lvn_MemAllocMode_MemPool,
      ci_pMemoryBindings = [\<lparr>bi_sType = Lvn_Stype_Buffer, bi_count = 2\<rparr>],
      ci_pBlockMemoryBindings = []\<rparr>"

definition zero_buffers :: LvnContextCreateInfo where
  "zero_buffers =
     two_buffers\<lparr>ci_pMemoryBindings :=
       [\<lparr>bi_sType = Lvn_Stype_Buffer, bi_count = 0\<rparr>,
        \<lparr>bi_sType = Lvn_Stype_Window, bi_count = 4\<rparr>]\<rparr>"

definition two_buffers_ctx :: "error + LvnContext" where
  "two_buffers_ctx =
     and_then (createContext (\<lambda>t. 8) Lvn_Result_Success None two_buffers)
       (\<lambda>(r, s). case s of None \<Rightarrow> Inl ContractViolation | Some c \<Rightarrow> Inr c)"

text \<open>The context after the buffers \<open>B1\<close> and \<open>B2\<close> have been created in it.\<close>

definition two_buffers_full :: "error + (ptr \<times> ptr \<times> LvnContext)" where
  "two_buffers_full =
     and_then two_buffers_ctx
       (\<lambda>c. and_then (createObject c Lvn_Stype_Buffer)
          (\<lambda>(b1, c1). and_then (createObject c1 Lvn_Stype_Buffer)
             (\<lambda>(b2, c2). Inr (b1, b2, c2))))"

section \<open>Raw allocation primitives: contract\<close>

text \<open>
  C10. \<^verbatim>\<open>memAlloc(0)\<close> returns the null pointer and leaves the whole state as it was: the
  installed allocator is not called and the allocation counter keeps its value. For every
  size above zero, a \<^verbatim>\<open>memAlloc\<close> that returns gives a non-null block of exactly that many
  bytes, all zero, has called the allocator once, and has added one to the counter of the
  context (when a context exists; the counter is a member of it). \<^verbatim>\<open>memFree(nullptr)\<close>
  leaves the whole state as it was.
\<close>

theorem memAlloc_memFree_contract:
  "memAlloc allocFunc 0 s = Inr (0, s) \<and>
   (0 < sz \<longrightarrow> memAlloc allocFunc sz s = Inr (p, s') \<longrightarrow>
      p \<noteq> 0 \<and> heap s' p = Some (replicate sz 0) \<and>
      allocCalls s' = allocCalls s + 1 \<and>
      numMemoryAllocations s' = map_option (\<lambda>c. c + 1) (numMemoryAllocations s)) \<and>
   memFree freeFunc 0 s = s"
  by (auto simp: memAlloc_def memFree_def Let_def split: if_splits)

theorem memAlloc_memFree_contract_witness:
  "memAlloc bumpAlloc 0 mem_init = Inr (0, mem_init) \<and>
   (0::nat) < 4 \<and>
   memAlloc bumpAlloc 4 mem_init =
     Inr (1, \<lparr>heap = [1 \<mapsto> [0, 0, 0, 0]], allocCalls = 1, freeCalls = 0,
              numMemoryAllocations = Some 1\<rparr>) \<and>
   heap \<lparr>heap = [1 \<mapsto> [0, 0, 0, 0]], allocCalls = 1, freeCalls = 0,
         numMemoryAllocations = Some 1\<rparr> 1 = Some (replicate 4 0) \<and>
   memFree dropBlock 0 mem_init = mem_init"
  using memAlloc_memFree_contract
    [of bumpAlloc mem_init 4 1
        "\<lparr>heap = [1 \<mapsto> [0, 0, 0, 0]], allocCalls = 1, freeCalls = 0,
          numMemoryAllocations = Some 1\<rparr>" dropBlock]
  by (simp add: memAlloc_def bumpAlloc_def mem_init_def Let_def numeral_eq_Suc)

section \<open>LvnVector: the element list after each operation\<close>

lemma copy_loop:
  "n \<le> length d \<Longrightarrow> n \<le> m \<Longrightarrow>
   fold (\<lambda>i t. t[i := d ! i]) [0..<n] (replicate m None) = take n d @ replicate (m - n) None"
proof (induction n)
  case 0
  then show ?case by simp
next
  case (Suc n)
  then have "fold (\<lambda>i t. t[i := d ! i]) [0..<Suc n] (replicate m None)
      = (take n d @ replicate (m - n) None)[n := d ! n]" by simp
  also have "\<dots> = take n d @ (replicate (m - n) None)[0 := d ! n]"
    using Suc.prems by (simp add: list_update_append)
  also have "\<dots> = take (Suc n) d @ replicate (m - Suc n) None"
  proof -
    obtain k where k: "m - n = Suc k" using Suc.prems by (cases "m - n") auto
    then have "m - Suc n = k" by simp
    with k show ?thesis using Suc.prems by (simp add: take_Suc_conv_app_nth)
  qed
  finally show ?case .
qed

lemma fill_loop_length [simp]:
  "length (fold (\<lambda>i d. d[i := x]) [a..<b] d) = length d"
  by (induction b) auto

lemma fill_loop_nth:
  "j < length d \<Longrightarrow>
   fold (\<lambda>i d. d[i := x]) [a..<b] d ! j = (if a \<le> j \<and> j < b then x else d ! j)"
proof (induction b)
  case 0 then show ?case by simp
next
  case (Suc b)
  show ?case
  proof (cases "a \<le> b")
    case True
    then show ?thesis using Suc by (cases "j = b") (auto simp: nth_list_update)
  next
    case False then show ?thesis by auto
  qed
qed

lemma erase_loop_length [simp]:
  "length (fold (\<lambda>i d. d[i - 1 := d ! i]) [a..<b] d) = length d"
  by (induction b) auto

lemma erase_loop_length' [simp]:
  "length (fold (\<lambda>i d. d[i - Suc 0 := d ! i]) [a..<b] d) = length d"
  by (induction b) auto

lemma erase_loop_nth:
  "n \<le> length d \<Longrightarrow> j < length d \<Longrightarrow>
   fold (\<lambda>i d. d[i - 1 := d ! i]) [Suc k..<n] d ! j =
       (if k \<le> j \<and> Suc j < n then d ! Suc j else d ! j)"
proof (induction n arbitrary: j)
  case 0 then show ?case by simp
next
  case (Suc n)
  show ?case
  proof (cases "Suc k \<le> n")
    case True
    have n: "n < length d" and n': "n \<le> length d" using Suc.prems by simp_all
    have at_n: "fold (\<lambda>i d. d[i - 1 := d ! i]) [Suc k..<n] d ! n = d ! n"
      using Suc.IH[OF n' n] by simp
    have at_j: "fold (\<lambda>i d. d[i - 1 := d ! i]) [Suc k..<n] d ! j =
       (if k \<le> j \<and> Suc j < n then d ! Suc j else d ! j)"
      using Suc.IH[OF n' Suc.prems(2)] .
    have "fold (\<lambda>i d. d[i - 1 := d ! i]) [Suc k..<Suc n] d
        = (fold (\<lambda>i d. d[i - 1 := d ! i]) [Suc k..<n] d)[n - 1 := d ! n]"
      using True at_n by simp
    then show ?thesis
      using at_j True Suc.prems erase_loop_length[of "Suc k" n d]
      by (cases "j = n - 1") (auto simp: nth_list_update)
  next
    case False then show ?thesis by auto
  qed
qed

lemma vec_destruct_at_length [simp]: "length (vec_destruct_at td i d) = length d"
  by (simp add: vec_destruct_at_def)

lemma vec_destruct_at_nth:
  "j < length d \<Longrightarrow>
   vec_destruct_at td i d ! j = (if j = i \<and> \<not> td then None else d ! j)"
  by (simp add: vec_destruct_at_def nth_list_update)

lemma shift_loop_length [simp]:
  "length (fold (\<lambda>i d. vec_destruct_at td i (d[i + c := d ! i])) (rev [k..<n]) d) = length d"
  by (induction n arbitrary: d) auto

lemma shift_loop_nth:
  "n + c \<le> length d \<Longrightarrow> 0 < c \<Longrightarrow> j < length d \<Longrightarrow>
   fold (\<lambda>i d. vec_destruct_at td i (d[i + c := d ! i])) (rev [k..<n]) d ! j =
       (if k + c \<le> j \<and> j < n + c then d ! (j - c)
        else if k \<le> j \<and> j < n \<and> \<not> td then None else d ! j)"
proof (induction n arbitrary: d)
  case 0 then show ?case by auto
next
  case (Suc n)
  show ?case
  proof (cases "k \<le> n")
    case True
    let ?d1 = "vec_destruct_at td n (d[n + c := d ! n])"
    have len: "n + c \<le> length ?d1" and j: "j < length ?d1" using Suc.prems by simp_all
    have unf: "fold (\<lambda>i d. vec_destruct_at td i (d[i + c := d ! i])) (rev [k..<Suc n]) d
       = fold (\<lambda>i d. vec_destruct_at td i (d[i + c := d ! i])) (rev [k..<n]) ?d1"
      using True by simp
    show ?thesis unfolding unf Suc.IH[OF len Suc.prems(2) j] using Suc.prems True
      by (auto simp: nth_list_update vec_destruct_at_nth)
  next
    case False then show ?thesis by auto
  qed
qed

lemma vec_construct_range_values:
  "\<exists>d'. vec_construct_range freed k (map Value xs) i d = Inr d' \<and> length d' = length d \<and>
        (\<forall>j < length d. d' ! j =
           (if k + i \<le> j \<and> j < k + i + length xs then Some (xs ! (j - (k + i))) else d ! j))"
proof (induction xs arbitrary: i d)
  case Nil
  then show ?case by auto
next
  case (Cons x xs)
  from Cons.IH[of "Suc i" "d[k + i := Some x]"]
  obtain d' where d': "vec_construct_range freed k (map Value xs) (Suc i) (d[k + i := Some x]) = Inr d'"
    "length d' = length d"
    "\<forall>j < length d. d' ! j =
       (if k + Suc i \<le> j \<and> j < k + Suc i + length xs then Some (xs ! (j - (k + Suc i)))
        else (d[k + i := Some x]) ! j)"
    by auto
  have "\<forall>j < length d. d' ! j =
          (if k + i \<le> j \<and> j < k + i + length (x # xs) then Some ((x # xs) ! (j - (k + i)))
           else d ! j)"
  proof (intro allI impI)
    fix j assume j: "j < length d"
    show "d' ! j = (if k + i \<le> j \<and> j < k + i + length (x # xs)
                    then Some ((x # xs) ! (j - (k + i))) else d ! j)"
    proof (cases "j = k + i")
      case True
      then show ?thesis using d'(3) j by simp
    next
      case False
      then show ?thesis using d'(3) j
        by (auto simp: nth_Cons' Suc_diff_le)
    qed
  qed
  with d'(1,2) show ?case by (simp add: vec_read_def)
qed


lemma vec_elems_nth:
  "vec_inv v \<Longrightarrow> i < m_Size v \<Longrightarrow> m_Data v ! i = Some (vec_elems v ! i)"
  by (auto simp: vec_inv_def vec_elems_def)

lemma vec_elems_length [simp]: "vec_inv v \<Longrightarrow> length (vec_elems v) = m_Size v"
  by (simp add: vec_inv_def vec_elems_def)

lemma vec_reserve_data:
  assumes "vec_inv v"
  shows "m_Data (vec_reserve n v) =
           (if n \<le> m_Capacity v then m_Data v
            else take (m_Size v) (m_Data v) @ replicate (n - m_Size v) None)"
  using assms by (simp add: vec_reserve_def vec_inv_def copy_loop Let_def)

lemma vec_reserve_fields [simp]:
  "m_Size (vec_reserve n v) = m_Size v"
  "m_Capacity (vec_reserve n v) = max n (m_Capacity v)"
  by (simp_all add: vec_reserve_def Let_def)

lemma vec_reserve_inv:
  assumes "vec_inv v"
  shows "vec_inv (vec_reserve n v)"
  using assms vec_reserve_data[OF assms, of n]
  by (auto simp: vec_inv_def nth_append)

lemma vec_reserve_nth:
  assumes "vec_inv v" "i < m_Size v"
  shows "m_Data (vec_reserve n v) ! i = m_Data v ! i"
  using assms vec_reserve_data[OF assms(1), of n]
  by (auto simp: vec_inv_def nth_append)

lemma vec_reserve_elems [simp]:
  assumes "vec_inv v"
  shows "vec_elems (vec_reserve n v) = vec_elems v"
  using assms vec_reserve_data[OF assms, of n]
  by (auto simp: vec_elems_def vec_inv_def)

lemma vec_push_back_correct:
  assumes "vec_inv v"
  shows "\<exists>v'. vec_push_back td T_default (Value val) v = Inr v' \<and> vec_inv v' \<and>
              vec_elems v' = vec_elems v @ [val] \<and> m_Size v' = m_Size v + 1"
proof -
  define w where "w = (vec_reserve (m_Size v + 1) v)
      \<lparr>m_Data := (m_Data (vec_reserve (m_Size v + 1) v))[m_Size v := Some val],
       m_Size := m_Size v + 1\<rparr>"
  let ?v1 = "vec_reserve (m_Size v + 1) v"
  let ?d = "(m_Data ?v1)[m_Size v := Some T_default]"
  have inv1: "vec_inv ?v1" by (rule vec_reserve_inv[OF assms])
  have cap1: "m_Size v < length (m_Data ?v1)"
    using inv1 by (simp add: vec_inv_def)
  have pbw: "vec_push_back td T_default (Value val) v = Inr w"
    by (simp add: vec_push_back_def vec_resize_def vec_read_def Let_def w_def)
  have pb: "w = ?v1\<lparr>m_Data := (m_Data ?v1)[m_Size v := Some val], m_Size := m_Size v + 1\<rparr>"
    by (simp add: w_def)
  have nth: "\<And>i. i < m_Size v \<Longrightarrow> m_Data ?v1 ! i = m_Data v ! i"
    using vec_reserve_nth[OF assms] by simp
  have inv: "vec_inv (w)"
    unfolding pb using inv1 cap1 assms nth
    by (auto simp: vec_inv_def nth_list_update less_Suc_eq)
  have "vec_elems (w) = vec_elems v @ [val]"
  proof (rule nth_equalityI)
    show "length (vec_elems (w)) = length (vec_elems v @ [val])"
      using inv assms by (simp add: pb)
  next
    fix i assume "i < length (vec_elems (w))"
    then have i: "i < m_Size v + 1" using inv by (simp add: pb)
    show "vec_elems (w) ! i = (vec_elems v @ [val]) ! i"
    proof (cases "i = m_Size v")
      case True
      then show ?thesis using cap1 assms
        by (simp add: pb vec_elems_def nth_append vec_inv_def)
    next
      case False
      with i have "i < m_Size v" by simp
      then show ?thesis using cap1 assms nth[of i]
        by (simp add: pb vec_elems_def nth_append vec_inv_def)
    qed
  qed
  then show ?thesis using inv pbw by (simp add: pb)
qed

lemma vec_insert_range_correct:
  assumes inv: "vec_inv v" and idx: "index \<le> m_Size v" and ne: "dat \<noteq> []"
  shows "\<exists>v'. vec_insert_range td index (map Value dat) v = Inr v' \<and> vec_inv v' \<and>
               vec_elems v' = take index (vec_elems v) @ dat @ drop index (vec_elems v) \<and>
               m_Size v' = m_Size v + length dat"
proof -
  let ?c = "length dat"
  let ?n = "m_Size v"
  let ?v1 = "vec_reserve (?n + ?c) v"
  let ?d1 = "fold (\<lambda>i d. vec_destruct_at td i (d[i + ?c := d ! i])) (rev [index..<?n]) (m_Data ?v1)"
  have c: "0 < ?c" using ne by simp
  obtain d2 where d2: "vec_construct_range (m_Capacity v < ?n + ?c) index (map Value dat) 0 ?d1 = Inr d2"
    "length d2 = length ?d1"
    "\<forall>j < length ?d1. d2 ! j =
       (if index + 0 \<le> j \<and> j < index + 0 + ?c then Some (dat ! (j - (index + 0))) else ?d1 ! j)"
    using vec_construct_range_values[of "m_Capacity v < ?n + ?c" index dat 0 ?d1] by blast
  let ?d2 = d2
  let ?v' = "?v1\<lparr>m_Data := ?d2, m_Size := ?n + ?c\<rparr>"
  have inv1: "vec_inv ?v1" by (rule vec_reserve_inv[OF inv])
  have len1: "?n + ?c \<le> length (m_Data ?v1)"
    using inv1 by (simp add: vec_inv_def)
  have nth1: "\<And>i. i < ?n \<Longrightarrow> m_Data ?v1 ! i = Some (vec_elems v ! i)"
    using vec_reserve_nth[OF inv] vec_elems_nth[OF inv] by simp
  have eq: "vec_insert_range td index (map Value dat) v = Inr ?v'"
    using c idx d2(1) by (simp add: vec_insert_range_def Let_def)
  have d2_nth: "?d2 ! j = (if index \<le> j \<and> j < index + ?c then Some (dat ! (j - index))
                  else if index + ?c \<le> j then Some (vec_elems v ! (j - ?c))
                  else Some (vec_elems v ! j))" if j: "j < ?n + ?c" for j
  proof -
    have jl: "j < length (m_Data ?v1)" using j len1 by simp
    have "?d2 ! j = (if index \<le> j \<and> j < index + ?c then Some (dat ! (j - index)) else ?d1 ! j)"
      using d2(3) jl by simp
    moreover have "?d1 ! j = (if index + ?c \<le> j \<and> j < ?n + ?c then m_Data ?v1 ! (j - ?c)
        else if index \<le> j \<and> j < ?n \<and> \<not> td then None else m_Data ?v1 ! j)"
      using shift_loop_nth[OF len1 c jl, of td index] .
    ultimately show ?thesis using j idx nth1 by auto
  qed
  have inv': "vec_inv ?v'"
    using inv1 len1 d2_nth d2(2) by (auto simp: vec_inv_def)
  have "vec_elems ?v' = take index (vec_elems v) @ dat @ drop index (vec_elems v)"
  proof (rule nth_equalityI)
    show "length (vec_elems ?v') =
          length (take index (vec_elems v) @ dat @ drop index (vec_elems v))"
      using inv' inv idx by simp
  next
    fix j assume "j < length (vec_elems ?v')"
    then have j: "j < ?n + ?c" using inv' by simp
    have "vec_elems ?v' ! j = the (?d2 ! j)"
      using j len1 d2(2) by (simp add: vec_elems_def)
    then show "vec_elems ?v' ! j = (take index (vec_elems v) @ dat @ drop index (vec_elems v)) ! j"
      using d2_nth[OF j] j idx inv
      by (auto simp: nth_append min_def)
  qed
  then show ?thesis using eq inv' by auto
qed

lemma vec_insert_index_correct:
  assumes inv: "vec_inv v" and idx: "index \<le> m_Size v"
  shows "\<exists>v'. vec_insert_index td index (Value val) v = Inr v' \<and> vec_inv v' \<and>
               vec_elems v' = take index (vec_elems v) @ val # drop index (vec_elems v) \<and>
               m_Size v' = m_Size v + 1"
  using vec_insert_range_correct[OF inv idx, of "[val]" td] idx
  by (simp add: vec_insert_index_def)

lemma vec_erase_index_correct:
  assumes inv: "vec_inv v" and idx: "index < m_Size v"
  shows "\<exists>v'. vec_erase_index td index v = Inr v' \<and> vec_inv v' \<and>
               vec_elems v' = take index (vec_elems v) @ drop (Suc index) (vec_elems v) \<and>
               m_Size v' + 1 = m_Size v"
proof -
  let ?n = "m_Size v"
  let ?d = "(if ?n - index - 1 \<noteq> 0
                 then vec_destruct_at td (?n - 1)
                        (fold (\<lambda>i d. d[i - 1 := d ! i]) [index + 1..<?n] (m_Data v))
                 else m_Data v)"
  let ?v' = "v\<lparr>m_Data := ?d, m_Size := ?n - 1\<rparr>"
  have eq: "vec_erase_index td index v = Inr ?v'"
    using idx by (simp add: vec_erase_index_def Let_def)
  have len: "?n \<le> length (m_Data v)" using inv by (simp add: vec_inv_def)
  have d_nth: "?d ! j = Some (if index \<le> j then vec_elems v ! Suc j else vec_elems v ! j)"
    if j: "j < ?n - 1" for j
  proof (cases "?n - index - 1 \<noteq> 0")
    case True
    have jl: "j < length (m_Data v)" using j len by simp
    have "?d ! j = fold (\<lambda>i d. d[i - 1 := d ! i]) [Suc index..<?n] (m_Data v) ! j"
      using True j jl by (simp add: vec_destruct_at_nth)
    also have "\<dots> = (if index \<le> j \<and> Suc j < ?n then m_Data v ! Suc j else m_Data v ! j)"
      using erase_loop_nth[OF len jl, of index] .
    finally show ?thesis using j vec_elems_nth[OF inv] by auto
  next
    case False
    then have "index = ?n - 1" using idx by simp
    then show ?thesis using False j vec_elems_nth[OF inv, of j] by simp
  qed
  have inv': "vec_inv ?v'"
    using inv d_nth idx by (auto simp: vec_inv_def)
  have "vec_elems ?v' = take index (vec_elems v) @ drop (Suc index) (vec_elems v)"
  proof (rule nth_equalityI)
    show "length (vec_elems ?v') = length (take index (vec_elems v) @ drop (Suc index) (vec_elems v))"
      using inv' inv idx by simp
  next
    fix j assume "j < length (vec_elems ?v')"
    then have j: "j < ?n - 1" using inv' by simp
    have "vec_elems ?v' ! j = the (?d ! j)"
      using j len inv' by (simp add: vec_elems_def vec_inv_def)
    then show "vec_elems ?v' ! j = (take index (vec_elems v) @ drop (Suc index) (vec_elems v)) ! j"
      using d_nth[OF j] j idx inv
      by (auto simp: nth_append min_def)
  qed
  then show ?thesis using eq inv' idx by auto
qed

lemma vec_step_correct:
  assumes "vec_inv v" "ops_in_range (op # ops) (m_Size v)"
    and "outside_args (op # ops)"
  shows "\<exists>v'. vec_step td T_default op v = Inr v' \<and> vec_inv v' \<and>
              vec_elems v' = list_step op (vec_elems v) \<and>
              int (m_Size v') = int (m_Size v) + net_count [op] \<and>
              ops_in_range ops (m_Size v') \<and> outside_args ops"
proof (cases op)
  case (PushBack a)
  with assms(3) obtain x where a: "a = Value x" by (cases a) auto
  show ?thesis using assms vec_push_back_correct[OF assms(1), of td T_default x]
    by (auto simp: PushBack a)
next
  case (InsertIndex i a)
  with assms(3) obtain x where a: "a = Value x" by (cases a) auto
  from assms(2) have i: "i \<le> m_Size v" by (simp add: InsertIndex)
  show ?thesis using assms vec_insert_index_correct[OF assms(1) i, of td x]
    by (auto simp: InsertIndex a)
next
  case (EraseIndex i)
  then have i: "i < m_Size v" using assms by simp
  obtain v' where v': "vec_erase_index td i v = Inr v'" "vec_inv v'"
      "vec_elems v' = take i (vec_elems v) @ drop (Suc i) (vec_elems v)"
      "m_Size v' + 1 = m_Size v"
    using vec_erase_index_correct[OF assms(1) i, of td] by blast
  from v'(4) have "m_Size v' = m_Size v - 1" by simp
  then show ?thesis using EraseIndex assms v' by auto
qed

lemma net_count_Cons: "net_count (op # ops) = net_count [op] + net_count ops"
  by (cases op) simp_all

lemma vec_run_correct:
  "vec_inv v \<Longrightarrow> ops_in_range ops (m_Size v) \<Longrightarrow> outside_args ops \<Longrightarrow>
   \<exists>v'. vec_run td T_default ops v = Inr v' \<and> vec_inv v' \<and>
        vec_elems v' = list_run ops (vec_elems v) \<and>
        int (m_Size v') = int (m_Size v) + net_count ops"
proof (induction ops arbitrary: v)
  case Nil
  then show ?case by simp
next
  case (Cons op ops)
  obtain v1 where v1: "vec_step td T_default op v = Inr v1" "vec_inv v1"
      "vec_elems v1 = list_step op (vec_elems v)"
      "int (m_Size v1) = int (m_Size v) + net_count [op]"
      "ops_in_range ops (m_Size v1)" "outside_args ops"
    using vec_step_correct[OF Cons.prems] by blast
  obtain v' where v': "vec_run td T_default ops v1 = Inr v'" "vec_inv v'"
      "vec_elems v' = list_run ops (vec_elems v1)"
      "int (m_Size v') = int (m_Size v1) + net_count ops"
    using Cons.IH[OF v1(2) v1(5) v1(6)] by blast
  show ?case using v1 v' net_count_Cons[of op ops] by simp
qed

lemma vec_at_elems:
  assumes "vec_inv v"
  shows "map (vec_at v) [0..<vec_size v] = map Inr (vec_elems v)"
proof (rule nth_equalityI)
  show "length (map (vec_at v) [0..<vec_size v]) = length (map Inr (vec_elems v))"
    using assms by (simp add: vec_size_def)
next
  fix i assume "i < length (map (vec_at v) [0..<vec_size v])"
  then have i: "i < m_Size v" by (simp add: vec_size_def)
  then show "map (vec_at v) [0..<vec_size v] ! i = map Inr (vec_elems v) ! i"
    using assms vec_elems_nth[OF assms i] by (simp add: vec_size_def vec_at_def)
qed

lemma vec_new_inv: "vec_inv vec_new"
  by (simp add: vec_inv_def vec_new_def)

text \<open>
  The round trip for sequences whose arguments are objects outside the vector: from a
  well-formed vector, every such sequence of \<^verbatim>\<open>push_back\<close>, \<^verbatim>\<open>insert_index\<close> and
  \<^verbatim>\<open>erase_index\<close> whose indices are in range runs without a contract violation; afterwards
  \<^verbatim>\<open>size()\<close> is the size before plus the number of insertions minus the number of
  erasures, and the positions \<open>0 .. size - 1\<close> read as the list the sequence produces.
\<close>

lemma vector_round_trip_outside_args:
  assumes "vec_inv v" and "ops_in_range ops (vec_size v)" and "outside_args ops"
  shows "\<exists>v'. vec_run td T_default ops v = Inr v' \<and>
              int (vec_size v') = int (vec_size v) + net_count ops \<and>
              map (vec_at v') [0..<vec_size v'] = map Inr (list_run ops (vec_elems v))"
proof -
  obtain v' where v': "vec_run td T_default ops v = Inr v'" "vec_inv v'"
      "vec_elems v' = list_run ops (vec_elems v)"
      "int (m_Size v') = int (m_Size v) + net_count ops"
    using vec_run_correct[OF assms(1), of ops td T_default] assms(2,3)
    by (auto simp: vec_size_def)
  then show ?thesis using vec_at_elems[OF v'(2)] by (auto simp: vec_size_def)
qed

text \<open>
  C7. The claim is for every sequence with indices in range, and \<^verbatim>\<open>v.insert_index(0, v[1])\<close>
  and \<^verbatim>\<open>v.push_back(v[0])\<close> are such calls. On a vector of integers,
  \<^verbatim>\<open>push_back(7); push_back(8); push_back(9); erase_index(2); insert_index(0, v[1])\<close> should
  leave \<open>8, 7, 8\<close>; the code leaves \<open>7, 7, 8\<close>: no memory is reserved (the capacity is 3),
  the tail is shifted one place right, and only then is the argument read, from the slot
  that now holds the 7. And \<^verbatim>\<open>push_back(7); push_back(v[0])\<close> should leave \<open>7, 7\<close>; the code
  reads the argument after \<^verbatim>\<open>resize\<close> has copied the elements to a new buffer and freed
  the one the reference points into.
\<close>

theorem vector_element_argument_misread:
  "ops_in_range [PushBack (Value 7), PushBack (Value 8), PushBack (Value 9), EraseIndex 2,
                 InsertIndex 0 (Element 1)] (vec_size (vec_new :: nat LvnVector)) \<and>
   list_run [PushBack (Value 7), PushBack (Value 8), PushBack (Value 9), EraseIndex 2,
             InsertIndex 0 (Element 1)] [] = [8, 7, 8 :: nat] \<and>
   and_then
     (vec_run True 0 [PushBack (Value 7), PushBack (Value 8), PushBack (Value 9), EraseIndex 2,
                      InsertIndex 0 (Element 1)] vec_new)
     (\<lambda>v. Inr (vec_size v, map (vec_at v) [0..<vec_size v]))
     = Inr (3, [Inr 7, Inr 7, Inr (8 :: nat)]) \<and>
   ops_in_range [PushBack (Value 7), PushBack (Element 0)] (vec_size (vec_new :: nat LvnVector)) \<and>
   list_run [PushBack (Value 7), PushBack (Element 0)] [] = [7, 7 :: nat] \<and>
   vec_run True 0 [PushBack (Value (7 :: nat)), PushBack (Element 0)] vec_new
     = Inl DanglingPointer"
  by code_simp

section \<open>LvnHashMap: size, capacity and membership\<close>

lemma erase_recursive_length:
  "erase_recursive fuel index es = Inr (r, es') \<Longrightarrow> length es' = length es"
proof (induction fuel arbitrary: index es r es')
  case 0
  then show ?case by simp
next
  case (Suc fuel)
  show ?case
  proof (cases "index < length es \<and> entry_hasNext (es ! index) \<and>
                entry_nextIndex (es ! index) < length es")
    case True
    let ?n = "entry_nextIndex (es ! index)"
    let ?es1 = "es[index := (es ! index)
                           \<lparr>entry_key := entry_key (es ! ?n),
                            entry_nextIndex := entry_nextIndex (es ! ?n),
                            entry_taken := entry_taken (es ! ?n),
                            entry_hasNext := entry_hasNext (es ! ?n),
                            entry_data := entry_data (es ! ?n)\<rparr>]"
    obtain r2 es2 where rec: "erase_recursive fuel ?n ?es1 = Inr (r2, es2)"
      using Suc.prems True by (auto simp: Let_def split: sum.splits)
    have "length es2 = length ?es1" using Suc.IH[OF rec] .
    then show ?thesis using Suc.prems True rec
      by (auto simp: Let_def split: if_splits bool.splits)
  next
    case False
    then show ?thesis using Suc.prems by (auto simp: Let_def split: if_splits)
  qed
qed

lemma hm_erase_frame:
  assumes "hm_erase k s = Inr s'"
  shows "hm_Size s' = hm_Size s \<and> hm_Capacity s' = hm_Capacity s \<and>
         length (hm_HashEntries s') = length (hm_HashEntries s)"
proof -
  have len: "length es' = length (hm_HashEntries s)"
    if "erase_recursive fuel i (hm_HashEntries s) = Inr (r, es')" for fuel i r es'
    using erase_recursive_length[OF that] .
  show ?thesis
    using assms
    by (auto simp del: erase_recursive.simps hm_walk.simps
             simp: hm_erase_def Let_def len split: if_splits sum.splits bool.splits)
qed

lemma hm_insert_slot_frame:
  assumes "hm_insert_slot k v s = Inr s'"
  shows "hm_Capacity s' = hm_Capacity s \<and>
         length (hm_HashEntries s') = length (hm_HashEntries s) \<and>
         hm_Size s \<le> hm_Size s' \<and> hm_Size s' \<le> hm_Size s + 1"
  using assms
  by (auto simp del: hm_walk.simps hm_probe.simps
           simp: hm_insert_slot_def Let_def split: if_splits sum.splits bool.splits)

lemma hm_insert_no_rehash:
  "hm_Size s * 10 < hm_Capacity s * 7 \<Longrightarrow>
   hm_insert fuel T_default k v s = hm_insert_slot k v s"
  by (simp add: hm_insert.simps)

lemma hm_rehash_bound:
  "hm_rehash fuel T_default temp t = Inr t' \<Longrightarrow>
   (hm_Size t + length temp) * 10 \<le> hm_Capacity t * 7 \<Longrightarrow>
   hm_Capacity t' = hm_Capacity t \<and>
   length (hm_HashEntries t') = length (hm_HashEntries t) \<and>
   hm_Size t' \<le> hm_Size t + length temp"
proof (induction temp arbitrary: t)
  case Nil
  then show ?case by simp
next
  case (Cons e temp)
  show ?case
  proof (cases "entry_taken e")
    case True
    have small: "hm_Size t * 10 < hm_Capacity t * 7" using Cons.prems(2) by simp
    obtain t1 where t1: "hm_insert_slot (entry_key e) (entry_data e) t = Inr t1"
        and rest: "hm_rehash fuel T_default temp t1 = Inr t'"
      using Cons.prems(1) True small
      by (auto simp: hm_insert_no_rehash split: sum.splits)
    note f = hm_insert_slot_frame[OF t1]
    have "(hm_Size t1 + length temp) * 10 \<le> hm_Capacity t1 * 7"
      using f Cons.prems(2) by simp
    from Cons.IH[OF rest this] show ?thesis using f by simp
  next
    case False
    then have rest: "hm_rehash fuel T_default temp t = Inr t'" using Cons.prems(1) by simp
    have "(hm_Size t + length temp) * 10 \<le> hm_Capacity t * 7" using Cons.prems(2) by simp
    from Cons.IH[OF rest this] show ?thesis by simp
  qed
qed

lemma hm_insert_inv:
  assumes inv: "hm_inv s" and ins: "hm_insert fuel T_default k v s = Inr s'"
  shows "hm_inv s' \<and> hm_Size s' * 10 < hm_Capacity s' * 7 + 10 \<and>
         (hm_Capacity s' = hm_Capacity s \<or>
          hm_Capacity s' = (if hm_Capacity s \<noteq> 0 then hm_Capacity s * 2 else 8))"
proof (cases "hm_Size s * 10 \<ge> hm_Capacity s * 7")
  case False
  then have "hm_insert_slot k v s = Inr s'" using ins by (simp add: hm_insert.simps)
  from hm_insert_slot_frame[OF this] show ?thesis using inv False
    by (auto simp: hm_inv_def)
next
  case True
  let ?n = "if hm_Capacity s \<noteq> 0 then hm_Capacity s * 2 else 8"
  let ?t = "s\<lparr>hm_HashEntries := replicate ?n (entry_zero T_default),
                hm_Capacity := ?n, hm_Size := 0\<rparr>"
  let ?temp = "take (hm_Capacity s) (hm_HashEntries s)"
  have n: "\<not> ?n \<le> hm_Size s" using inv by (auto simp: hm_inv_def)
  obtain fuel' where fuel: "fuel = Suc fuel'"
    using ins True by (cases fuel) (auto simp: hm_insert.simps)
  obtain s1 where s1: "hm_reserve fuel' T_default ?n s = Inr s1"
      and slot: "hm_insert_slot k v s1 = Inr s'"
    using ins True fuel by (auto simp: hm_insert.simps split: sum.splits)
  have rh: "hm_rehash fuel' T_default ?temp ?t = Inr s1"
    using s1 n by (simp add: hm_reserve.simps Let_def)
  have pre: "(hm_Size ?t + length ?temp) * 10 \<le> hm_Capacity ?t * 7"
    using inv by (auto simp: hm_inv_def)
  note b = hm_rehash_bound[OF rh pre]
  note f = hm_insert_slot_frame[OF slot]
  have len: "length ?temp = hm_Capacity s" using inv by (simp add: hm_inv_def)
  have cap': "hm_Capacity s' = ?n" using b f by simp
  have sz1: "hm_Size s1 \<le> hm_Capacity s" using b len by simp
  have "hm_Size s' \<le> hm_Capacity s + 1" using f sz1 by simp
  then show ?thesis using cap' b f
    by (auto simp: hm_inv_def split: if_splits)
qed

lemma hm_erase_inv:
  "hm_inv s \<Longrightarrow> hm_erase k s = Inr s' \<Longrightarrow> hm_inv s'"
  using hm_erase_frame[of k s s'] by (simp add: hm_inv_def)

lemma hm_at_inv:
  "hm_inv s \<Longrightarrow> hm_at fuel T_default k s = Inr (v, s') \<Longrightarrow> hm_inv s'"
proof (induction fuel arbitrary: s)
  case 0
  note eq = "0.prems"(2)[unfolded hm_at.simps[of 0 T_default k s]]
  let ?first = "(if hm_Size s = 0 then hm_insert 0 T_default k T_default s else Inr s)"
  obtain s1 where s1: "?first = Inr s1"
    using eq by (auto split: sum.splits)
  have inv1: "hm_inv s1"
    using s1 "0.prems"(1) hm_insert_inv[of s 0 T_default k T_default s1]
    by (auto split: if_splits)
  have "s' = s1" using eq
    by (simp only: s1 sum.case)
       (auto simp: Let_def split: sum.splits if_splits bool.splits)
  then show ?case using inv1 by simp
next
  case (Suc fuel)
  note eq = Suc.prems(2)[unfolded hm_at.simps[of "Suc fuel" T_default k s]]
  let ?first = "(if hm_Size s = 0 then hm_insert (Suc fuel) T_default k T_default s else Inr s)"
  obtain s1 where s1: "?first = Inr s1"
    using eq by (auto split: sum.splits)
  have inv1: "hm_inv s1"
    using s1 Suc.prems(1) hm_insert_inv[of s "Suc fuel" T_default k T_default s1]
    by (auto split: if_splits)
  show ?case
  proof (cases "\<exists>s2. hm_insert (Suc fuel) T_default k T_default s1 = Inr s2 \<and>
                     hm_at fuel T_default k s2 = Inr (v, s')")
    case True
    then obtain s2 where s2: "hm_insert (Suc fuel) T_default k T_default s1 = Inr s2"
        and rec: "hm_at fuel T_default k s2 = Inr (v, s')" by blast
    have "hm_inv s2" using hm_insert_inv[OF inv1 s2] by simp
    from Suc.IH[OF this rec] show ?thesis .
  next
    case False
    have "s' = s1" using eq False
      by (simp only: s1 sum.case)
         (auto simp: Let_def split: sum.splits if_splits bool.splits)
    then show ?thesis using inv1 by simp
  qed
qed

lemma hm_new_inv: "hm_inv hm_new"
  by (simp add: hm_inv_def hm_new_def)

lemma hm_step_inv:
  assumes "hm_inv s" "hm_step fuel T_default op s = Inr s'"
  shows "hm_inv s'"
proof (cases op)
  case (Insert k v)
  then show ?thesis using assms hm_insert_inv[of s fuel T_default k v s']
    by simp
next
  case (Erase k)
  then show ?thesis using assms hm_erase_inv[of s k s'] by simp
next
  case (At k)
  then obtain v where at: "hm_at fuel T_default k s = Inr (v, s')"
    using assms(2) by (auto split: sum.splits)
  show ?thesis by (rule hm_at_inv[OF assms(1) at])
qed

lemma hm_run_inv:
  "hm_inv s \<Longrightarrow> hm_run fuel T_default ops s = Inr s' \<Longrightarrow> hm_inv s'"
proof (induction ops arbitrary: s)
  case Nil
  then show ?case by simp
next
  case (Cons op ops)
  then obtain s1 where s1: "hm_step fuel T_default op s = Inr s1"
      and rest: "hm_run fuel T_default ops s1 = Inr s'"
    by (auto split: sum.splits)
  from Cons.IH[OF hm_step_inv[OF Cons.prems(1) s1] rest] show ?case .
qed

lemma LvnHash_values:
  "LvnHash 0 = 16294208416658607535"
  "LvnHash 1 = 10451216379200822465"
  "LvnHash 2 = 10905525725756348110"
  "LvnHash 3 = 2092789425003139053"
  "LvnHash 4 = 7958955049054603978"
  "LvnHash 5 = 7134611160154358618"
  "LvnHash 6 = 13647215125184110592"
  by (simp_all add: LvnHash_def Let_def)

lemma replicate_8: "replicate 8 x = [x, x, x, x, x, x, x, x]"
  by (simp add: numeral_eq_Suc)

lemmas hm_eval =
  hm_insert.simps hm_reserve.simps hm_insert_slot_def hm_home_def entry_zero_def hm_new_def
  hm_contains_def hm_erase_def and_then_def hm_size_def hm_capacity_def hm_load_ok_def
  live_entries_def Let_def LvnHash_values replicate_8

lemma filter_update_removed:
  "i < length xs \<Longrightarrow> P (xs ! i) \<Longrightarrow> \<not> P y \<Longrightarrow>
   Suc (length (filter P (xs[i := y]))) = length (filter P xs)"
proof (induction xs arbitrary: i)
  case Nil
  then show ?case by simp
next
  case (Cons x xs)
  then show ?case by (cases i) auto
qed

lemma hm_erase_unchained:
  assumes size: "hm_Size s \<noteq> 0" and u: "hm_unchained k s"
  shows "\<exists>s'. hm_erase k s = Inr s' \<and> Suc (live_entries s') = live_entries s"
proof -
  from u obtain i where home: "hm_home k s = Inr i"
    and e: "entry_taken (hm_HashEntries s ! i)" "entry_key (hm_HashEntries s ! i) = k"
      "\<not> entry_hasNext (hm_HashEntries s ! i)"
    by (auto simp: hm_unchained_def split: sum.splits)
  from home have i: "i < length (hm_HashEntries s)"
    by (auto simp: hm_home_def Let_def split: if_splits)
  let ?es = "hm_HashEntries s"
  let ?es' = "?es[i := (?es ! i)\<lparr>entry_key := 0, entry_nextIndex := 0,
                                  entry_taken := False, entry_hasNext := False\<rparr>]"
  have r: "erase_recursive (Suc (length ?es)) i ?es = Inr (True, ?es')"
    using i e by simp
  have "hm_erase k s = Inr (s\<lparr>hm_HashEntries := ?es'\<rparr>)"
    using size home e(2) r by (simp add: hm_erase_def Let_def del: erase_recursive.simps)
  moreover have "Suc (live_entries (s\<lparr>hm_HashEntries := ?es'\<rparr>)) = live_entries s"
    using filter_update_removed[of i ?es entry_taken] i e(1) by (simp add: live_entries_def)
  ultimately show ?thesis by blast
qed

lemma replicate_16:
  "replicate 16 x = [x, x, x, x, x, x, x, x, x, x, x, x, x, x, x, x]"
  by (simp add: numeral_eq_Suc)

text \<open>
  C9, as stated, fails: \<^verbatim>\<open>size()\<close> does not count the insertions. After six rounds of
  \<^verbatim>\<open>insert(k, 0); erase(k)\<close> for \<open>k = 1, ..., 6\<close> the size is 6 and no entry is taken; the
  seventh \<^verbatim>\<open>insert\<close> finds \<^verbatim>\<open>6 * 10 >= 8 * 7\<close> and rehashes, \<^verbatim>\<open>reserve\<close> sets \<^verbatim>\<open>m_Size\<close> to
  0 and inserts the taken entries of the old table again, of which there are none, and
  the size after the seventh insertion is 1.
\<close>

theorem hm_size_recounted_counterexample:
  "and_then (hm_run 1 0 hm_cycles hm_new) (\<lambda>s. Inr (hm_size s, live_entries s)) = Inr (6, 0) \<and>
   and_then (hm_run 1 0 (hm_cycles @ [Insert 1 0]) hm_new) (\<lambda>s. Inr (hm_size s)) = Inr 1 \<and>
   insert_count (hm_cycles @ [Insert 1 0]) = 7"
  by (simp add: hm_cycles_def hm_eval replicate_16)

text \<open>
  C9, amended. For every state of the map and every key, an \<^verbatim>\<open>erase\<close> that returns leaves
  \<^verbatim>\<open>size()\<close> as it was: \<^verbatim>\<open>erase\<close> does not decrement \<^verbatim>\<open>m_Size\<close>, also when it removes the
  entry of the key. So whenever an \<^verbatim>\<open>erase\<close> takes an entry out of a table whose size was
  the number of taken entries, the size is above that number afterwards. Where the entry
  of the key sits in its home slot with no chain behind it, \<^verbatim>\<open>erase\<close> does return, with
  one taken entry less and the same size.
\<close>

theorem hm_erase_keeps_size:
  "(hm_erase k s = Inr s' \<longrightarrow>
      hm_size s' = hm_size s \<and>
      (live_entries s' < live_entries s \<and> hm_size s = live_entries s \<longrightarrow>
         live_entries s' < hm_size s')) \<and>
   (hm_size s \<noteq> 0 \<and> hm_unchained k s \<longrightarrow>
      (\<exists>s''. hm_erase k s = Inr s'' \<and> hm_size s'' = hm_size s \<and>
             Suc (live_entries s'') = live_entries s \<and>
             (hm_size s = live_entries s \<longrightarrow> hm_size s'' = Suc (live_entries s''))))"
proof (intro conjI impI)
  assume "hm_erase k s = Inr s'"
  then show "hm_size s' = hm_size s" using hm_erase_frame[of k s s'] by (simp add: hm_size_def)
next
  assume "hm_erase k s = Inr s'"
    and "live_entries s' < live_entries s \<and> hm_size s = live_entries s"
  then show "live_entries s' < hm_size s'"
    using hm_erase_frame[of k s s'] by (simp add: hm_size_def)
next
  assume a: "hm_size s \<noteq> 0 \<and> hm_unchained k s"
  then obtain s'' where e: "hm_erase k s = Inr s''" and l: "Suc (live_entries s'') = live_entries s"
    using hm_erase_unchained[of s k] by (auto simp: hm_size_def)
  have "hm_size s'' = hm_size s" using hm_erase_frame[OF e] by (simp add: hm_size_def)
  with e l show "\<exists>s''. hm_erase k s = Inr s'' \<and> hm_size s'' = hm_size s \<and>
             Suc (live_entries s'') = live_entries s \<and>
             (hm_size s = live_entries s \<longrightarrow> hm_size s'' = Suc (live_entries s''))"
    by auto
qed

theorem hm_erase_keeps_size_witness:
  "hm_insert 1 0 1 100 hm_new = Inr hm_one \<and>
   hm_size hm_one \<noteq> 0 \<and> hm_unchained 1 hm_one \<and> hm_size hm_one = live_entries hm_one \<and>
   hm_erase 1 hm_one = Inr hm_one_erased \<and>
   live_entries hm_one_erased < live_entries hm_one \<and>
   hm_size hm_one_erased = 1 \<and> live_entries hm_one_erased = 0"
  using hm_erase_keeps_size[of 1 hm_one hm_one_erased]
  by (simp add: hm_one_def hm_one_erased_def hm_unchained_def hm_eval)

text \<open>
  C4. \<^verbatim>\<open>contains(k)\<close> is meant to hold exactly for the keys inserted and not erased since.
  The code evaluated on the empty map after \<^verbatim>\<open>insert(1, 100)\<close>: \<^verbatim>\<open>contains(0)\<close> returns
  true, though 0 is not among the live keys. The home slot of 0 (slot 7 of 8) is a
  value-initialised entry, whose key field is 0, and \<^verbatim>\<open>contains\<close> compares the key without
  looking at \<^verbatim>\<open>taken\<close>, as \<^verbatim>\<open>insert\<close> and \<^verbatim>\<open>at\<close> do.
\<close>

theorem hm_contains_reports_absent_key:
  "and_then (hm_run 1 0 [Insert 1 (100::nat)] hm_new) (hm_contains 0) = Inr True \<and>
   0 \<notin> set (live_keys [Insert 1 (100::nat)] [])"
  by (simp add: hm_eval)

text \<open>
  C5, as stated, fails: six insertions of distinct keys into the empty map leave 6 entries
  in a table of 8, a load factor of 0.75.
\<close>

theorem hm_load_factor_counterexample:
  "and_then
     (hm_run 1 0 [Insert 1 (0::nat), Insert 2 0, Insert 3 0, Insert 4 0, Insert 5 0, Insert 6 0]
        hm_new)
     (\<lambda>s. Inr (hm_size s, hm_capacity s, hm_load_ok s)) = Inr (6, 8, False)"
  by (simp add: hm_eval)

text \<open>
  C5, amended. For every state reached from the empty map by \<^verbatim>\<open>insert\<close>, \<^verbatim>\<open>erase\<close> and
  \<^verbatim>\<open>at\<close>, immediately after an \<^verbatim>\<open>insert\<close> returns, \<^verbatim>\<open>size * 10 < capacity * 7 + 10\<close>: the
  load factor is below \<open>0.7 + 1 / capacity\<close>. The test \<^verbatim>\<open>size * 10 >= capacity * 7\<close> is made
  on the size before the new entry is counted; when it holds, the table is rehashed into
  twice the capacity (or 8 from an empty table) first, and the capacity is otherwise
  unchanged.
\<close>

theorem hm_insert_load_factor:
  assumes "hm_run fuel T_default ops hm_new = Inr s"
      and "hm_insert fuel' T_default k v s = Inr s'"
  shows "hm_size s' * 10 < hm_capacity s' * 7 + 10 \<and>
         (hm_capacity s' = hm_capacity s \<or>
          hm_capacity s' = (if hm_capacity s \<noteq> 0 then hm_capacity s * 2 else 8))"
  using hm_insert_inv[OF hm_run_inv[OF hm_new_inv assms(1)] assms(2)]
  by (auto simp: hm_size_def hm_capacity_def split: if_splits)

theorem hm_insert_load_factor_witness:
  "hm_run 1 0 [] hm_new = Inr (hm_new :: nat LvnHashMap) \<and>
   hm_insert 1 0 1 100 hm_new = Inr hm_one \<and>
   hm_size hm_one * 10 < hm_capacity hm_one * 7 + 10 \<and>
   hm_capacity hm_one = 8"
  using hm_insert_load_factor[of 1 0 "[]" hm_new 1 1 100 hm_one]
  by (simp add: hm_one_def hm_eval)

section \<open>LvnArenaList: the chain of taken nodes\<close>

text \<open>
  C6. The four properties are meant to hold after every sequence of operations. The code
  evaluated on the empty list of integers, with the memory of new node arrays reading as
  zero: after \<^verbatim>\<open>push_back(1); push_back(2); pop_front(); pop_front(); push_back(3);
  push_back(4)\<close> the list should hold \<open>3, 4\<close>. The first \<^verbatim>\<open>pop_front\<close> records slot 0 in the
  free-index array, and the second empties the list. The branch of \<^verbatim>\<open>push_back\<close> for an
  empty list then takes slot 0 without removing it from that array, as the branch for a
  non-empty list does when it takes a slot from there; so \<^verbatim>\<open>push_back(4)\<close> takes slot 0
  again, overwrites the 3 and links the node to itself. The size is 2 with one node
  taken, and the walk from the head reads \<open>4, 4\<close>.
\<close>

theorem arena_list_refill_loses_element:
  "al_list_run al_refill [] = [3, 4] \<and>
   and_then (al_run (\<lambda>i. node_zero 0) al_refill al_new)
     (\<lambda>s. Inr (al_Size s, al_taken_count s, al_forward s, al_values s (al_forward s),
                 al_claimed s (al_list_run al_refill [])))
   = Inr (2, 1, [0, 0], [4, 4], False)"
  by code_simp

text \<open>
  Two more evaluations. \<^verbatim>\<open>insert_index\<close> strictly inside the list, into a slot from the
  free-index array, does not set the \<^verbatim>\<open>prev\<close> link of the following node, which the branch
  with the linear search does: after four pushes, \<^verbatim>\<open>erase_index(1)\<close> and
  \<^verbatim>\<open>insert_index(1, 9)\<close> the walk from the head reads \<open>1, 9, 3, 4\<close> and the walk from the
  tail \<open>4, 9, 1\<close>. And \<^verbatim>\<open>reserve\<close> adds capacity without entries in the free-index array:
  after \<^verbatim>\<open>reserve(2)\<close> on the empty list that array is empty and \<^verbatim>\<open>capacity - size()\<close> is 2.
\<close>

lemma arena_list_reinsert_breaks_prev:
  "al_list_run al_reinsert [] = [1, 9, 3, 4] \<and>
   and_then (al_run (\<lambda>i. node_zero 0) al_reinsert al_new)
     (\<lambda>s. Inr (al_values s (al_forward s), al_values s (al_backward s)))
   = Inr ([1, 9, 3, 4], [4, 9, 1])"
  by code_simp

lemma arena_list_reserve_free_size:
  "and_then (al_run (\<lambda>i. node_zero (0::nat)) [AlReserve 2] al_new)
     (\<lambda>s. Inr (al_FreeSize s, al_Capacity s - al_Size s)) = Inr (0, 2)"
  by code_simp

section \<open>Memory pool: configuration errors, destruction and chain growth\<close>

lemma stype_index_less: "stype_index t < 13 \<longleftrightarrow> t \<noteq> Lvn_Stype_Max_Value"
  by (cases t) simp_all

lemma set_counts_first_zero:
  "set_counts i bs infos = Inr (r, infos') \<Longrightarrow> r = first_zero i bs"
  by (induction bs arbitrary: i infos) (auto split: if_splits)

lemma set_counts_length:
  "set_counts i bs infos = Inr (r, infos') \<Longrightarrow> length infos' = length infos"
  by (induction bs arbitrary: i infos) (auto split: if_splits)

lemma set_counts_sTypes:
  "set_counts i bs infos = Inr (r, infos') \<Longrightarrow> map si_sType infos' = map si_sType infos"
proof (induction bs arbitrary: i infos)
  case Nil
  then show ?case by simp
next
  case (Cons b bs)
  show ?case
  proof (cases "bi_count b = 0")
    case True
    with Cons.prems show ?thesis by simp
  next
    case False
    let ?k = "stype_index (bi_sType b)"
    from Cons.prems False have k: "?k < length infos"
      by (auto split: if_splits)
    from Cons.prems False k
    have "set_counts (Suc i) bs (infos[?k := (infos ! ?k)\<lparr>si_count := bi_count b\<rparr>]) = Inr (r, infos')"
      by simp
    from Cons.IH[OF this]
    have "map si_sType infos' = (map si_sType infos)[?k := si_sType (infos ! ?k)]"
      by (simp add: map_update)
    also have "\<dots> = map si_sType infos"
      using k by (simp add: list_update_same_conv)
    finally show ?thesis .
  qed
qed

lemma no_zero_count_update:
  assumes "no_zero_count infos" and "n \<noteq> 0"
  shows "no_zero_count (infos[k := (infos ! k)\<lparr>si_count := n\<rparr>])"
proof -
  have "set (infos[k := (infos ! k)\<lparr>si_count := n\<rparr>])
          \<subseteq> insert ((infos ! k)\<lparr>si_count := n\<rparr>) (set infos)"
    by (rule set_update_subset_insert)
  with assms show ?thesis
    unfolding no_zero_count_def by auto
qed

lemma set_counts_no_zero:
  "set_counts i bs infos = Inr (r, infos') \<Longrightarrow> no_zero_count infos \<Longrightarrow> no_zero_count infos'"
proof (induction bs arbitrary: i infos)
  case Nil
  then show ?case by simp
next
  case (Cons b bs)
  show ?case
  proof (cases "bi_count b = 0")
    case True
    with Cons.prems show ?thesis by simp
  next
    case False
    let ?k = "stype_index (bi_sType b)"
    from Cons.prems False have k: "?k < length infos"
      by (auto split: if_splits)
    from Cons.prems False k
    have "set_counts (Suc i) bs (infos[?k := (infos ! ?k)\<lparr>si_count := bi_count b\<rparr>]) = Inr (r, infos')"
      by simp
    from Cons.IH[OF this no_zero_count_update[OF Cons.prems(2) False]]
    show ?thesis .
  qed
qed

lemma set_counts_total:
  "\<forall>b \<in> set bs. stype_index (bi_sType b) < length infos \<Longrightarrow>
     \<exists>infos'. set_counts i bs infos = Inr (first_zero i bs, infos')"
  by (induction bs arbitrary: i infos) auto

lemma bv_push_back_cases:
  "\<exists>v1 h1. bv_push_back val v h = (v1, h1)"
  by (cases "bv_push_back val v h") simp

lemma base_bindings_total:
  "\<forall>st \<in> set sts. stype_index (si_sType st) < length vs \<Longrightarrow>
     \<exists>vs' h'. base_bindings sts blk m vs h = Inr (vs', h')"
proof (induction sts arbitrary: m vs h)
  case Nil
  then show ?case by simp
next
  case (Cons st sts)
  obtain v1 h1 where p: "bv_push_back (MemoryBinding_new blk m (si_size st) (si_count st))
                            (vs ! stype_index (si_sType st)) h = (v1, h1)"
    using bv_push_back_cases by blast
  from Cons.prems
  have "\<forall>s \<in> set sts. stype_index (si_sType s) < length (vs[stype_index (si_sType st) := v1])"
    by simp
  from Cons.IH[OF this] Cons.prems p show ?case
    by simp
qed

lemma defaults_sTypes:
  "map si_sType (sTypeMemAllocInfos (setDefaultStructTypeMemAllocInfos sizeofT ctx)) = stypes"
  by (simp add: setDefaultStructTypeMemAllocInfos_def comp_def)

lemma defaults_length:
  "length (sTypeMemAllocInfos (setDefaultStructTypeMemAllocInfos sizeofT ctx)) = 13"
  by (simp add: setDefaultStructTypeMemAllocInfos_def stypes_def)

lemma defaults_no_zero:
  "no_zero_count (sTypeMemAllocInfos (setDefaultStructTypeMemAllocInfos sizeofT ctx))"
  by (simp add: setDefaultStructTypeMemAllocInfos_def stypes_def no_zero_count_def
      default_count_def)

lemma stypes_in_range: "\<forall>t \<in> set stypes. stype_index t < 13"
  by (simp add: stypes_def)

lemma first_zero_None: "first_zero i bs = None \<longleftrightarrow> (\<forall>b \<in> set bs. bi_count b \<noteq> 0)"
  by (induction bs arbitrary: i) auto

lemma resize_to_length: "length (resize_to n d xs) = n"
  by (simp add: resize_to_def)

lemma LVN_CORE_ERROR_fields:
  "logOutput (LVN_CORE_ERROR m c) =
     logOutput c @ (if logging c \<and> enableCoreLogging c then [LogError m] else [])"
  "sTypeMemAllocInfos (LVN_CORE_ERROR m c) = sTypeMemAllocInfos c"
  "blockMemAllocInfos (LVN_CORE_ERROR m c) = blockMemAllocInfos c"
  "memoryPool (LVN_CORE_ERROR m c) = memoryPool c"
  "bindingArrays (LVN_CORE_ERROR m c) = bindingArrays c"
  by (simp_all add: LVN_CORE_ERROR_def)

lemma createContextMemoryPool_zero_count:
  assumes mode: "ci_memAllocMode ci = Lvn_MemAllocMode_MemPool"
    and range: "\<forall>b \<in> set (ci_pMemoryBindings ci @ ci_pBlockMemoryBindings ci).
                  bi_sType b \<noteq> Lvn_Stype_Max_Value"
    and zero: "\<exists>b \<in> set (ci_pMemoryBindings ci @ ci_pBlockMemoryBindings ci). bi_count b = 0"
  shows "\<exists>c m. createContextMemoryPool sizeofT ctx ci = Inr (Lvn_Result_Failure, c) \<and>
           zero_count_message ci = Some m \<and>
           logOutput c =
             logOutput ctx @ (if logging ctx \<and> enableCoreLogging ctx then [LogError m] else []) \<and>
           no_zero_count (sTypeMemAllocInfos c) \<and> no_zero_count (blockMemAllocInfos c) \<and>
           (first_zero 0 (ci_pMemoryBindings ci) \<noteq> None \<longrightarrow>
              memoryPool c = memoryPool ctx \<and> bindingArrays c = bindingArrays ctx)"
proof -
  define d where "d = sTypeMemAllocInfos (setDefaultStructTypeMemAllocInfos sizeofT ctx)"
  define c2 where "c2 = (setDefaultStructTypeMemAllocInfos sizeofT ctx)
                          \<lparr>memoryMode := Lvn_MemAllocMode_MemPool, blockMemAllocInfos := d\<rparr>"
  have dlen: "length d = 13" and dnz: "no_zero_count d" and dty: "map si_sType d = stypes"
    by (simp_all add: d_def defaults_length defaults_no_zero defaults_sTypes)
  have c2f: "sTypeMemAllocInfos c2 = d" "blockMemAllocInfos c2 = d"
    "logOutput c2 = logOutput ctx" "logging c2 = logging ctx"
    "enableCoreLogging c2 = enableCoreLogging ctx"
    by (simp_all add: c2_def d_def setDefaultStructTypeMemAllocInfos_def)
  have c2g: "memoryPool c2 = memoryPool ctx" "bindingArrays c2 = bindingArrays ctx"
    by (simp_all add: c2_def d_def setDefaultStructTypeMemAllocInfos_def)
  have unf: "createContextMemoryPool sizeofT ctx ci =
       (case set_counts 0 (ci_pMemoryBindings ci) d of
          Inl e \<Rightarrow> Inl e
        | Inr (Some i, structTypes) \<Rightarrow>
            Inr (Lvn_Result_Failure,
                 LVN_CORE_ERROR (ZeroCountMemoryBinding i) (c2\<lparr>sTypeMemAllocInfos := structTypes\<rparr>))
        | Inr (None, structTypes) \<Rightarrow>
            (case base_bindings structTypes (numBlocks c2) 0
                    (resize_to 13 bv_new (memBindings (memoryPool c2))) (bindingArrays c2) of
               Inl e \<Rightarrow> Inl e
             | Inr (vs, h) \<Rightarrow>
                 (case set_counts 0 (ci_pBlockMemoryBindings ci) d of
                    Inl e \<Rightarrow> Inl e
                  | Inr (Some i, blockInfos) \<Rightarrow>
                      Inr (Lvn_Result_Failure,
                           LVN_CORE_ERROR (ZeroCountBlockMemoryBinding i)
                             (c2\<lparr>sTypeMemAllocInfos := structTypes,
                                 memoryPool :=
                                   \<lparr>baseMemoryBlock =
                                      Some \<lparr>blk_id = numBlocks c2, blk_size = total_size structTypes\<rparr>,
                                    memBlocks = resize_to 13 [] (memBlocks (memoryPool c2)),
                                    memBindings = vs\<rparr>,
                                 bindingArrays := h,
                                 numBlocks := numBlocks c2 + 1,
                                 blockMemAllocInfos := blockInfos\<rparr>))
                  | Inr (None, blockInfos) \<Rightarrow>
                      Inr (Lvn_Result_Success,
                           LVN_CORE_TRACE
                             (MemoryPoolCreated (length (ci_pMemoryBindings ci))
                                (length (ci_pBlockMemoryBindings ci)) (total_size structTypes))
                             (c2\<lparr>sTypeMemAllocInfos := structTypes,
                                 memoryPool :=
                                   \<lparr>baseMemoryBlock =
                                      Some \<lparr>blk_id = numBlocks c2, blk_size = total_size structTypes\<rparr>,
                                    memBlocks = resize_to 13 [] (memBlocks (memoryPool c2)),
                                    memBindings = vs\<rparr>,
                                 bindingArrays := h,
                                 numBlocks := numBlocks c2 + 1,
                                 blockMemAllocInfos := blockInfos\<rparr>)))))"
    unfolding createContextMemoryPool_def Let_def
    by (simp add: mode c2_def d_def setDefaultStructTypeMemAllocInfos_def
        split: sum.splits prod.splits option.splits)
  from range have rM: "\<forall>b \<in> set (ci_pMemoryBindings ci). stype_index (bi_sType b) < length d"
    and rB: "\<forall>b \<in> set (ci_pBlockMemoryBindings ci). stype_index (bi_sType b) < length d"
    by (simp_all add: dlen stype_index_less)
  from set_counts_total[OF rM, of 0]
  obtain st where st: "set_counts 0 (ci_pMemoryBindings ci) d = Inr (first_zero 0 (ci_pMemoryBindings ci), st)"
    by blast
  have stnz: "no_zero_count st" by (rule set_counts_no_zero[OF st dnz])
  have stty: "map si_sType st = stypes" using set_counts_sTypes[OF st] dty by simp
  show ?thesis
  proof (cases "first_zero 0 (ci_pMemoryBindings ci)")
    case (Some i)
    have m: "zero_count_message ci = Some (ZeroCountMemoryBinding i)"
      by (simp add: zero_count_message_def Some)
    show ?thesis
      by (rule exI[of _ "LVN_CORE_ERROR (ZeroCountMemoryBinding i) (c2\<lparr>sTypeMemAllocInfos := st\<rparr>)"],
          rule exI[of _ "ZeroCountMemoryBinding i"])
        (simp add: unf st Some m LVN_CORE_ERROR_fields c2f c2g stnz dnz)
  next
    case None
    from None have "\<forall>b \<in> set (ci_pMemoryBindings ci). bi_count b \<noteq> 0"
      by (simp add: first_zero_None)
    with zero have "\<not> (\<forall>b \<in> set (ci_pBlockMemoryBindings ci). bi_count b \<noteq> 0)"
      by auto
    then obtain j where j: "first_zero 0 (ci_pBlockMemoryBindings ci) = Some j"
      using first_zero_None[of 0 "ci_pBlockMemoryBindings ci"] by (cases "first_zero 0 (ci_pBlockMemoryBindings ci)") auto
    from set_counts_total[OF rB, of 0]
    obtain bt where bt: "set_counts 0 (ci_pBlockMemoryBindings ci) d = Inr (Some j, bt)"
      using j by auto
    have btnz: "no_zero_count bt" by (rule set_counts_no_zero[OF bt dnz])
    have "\<forall>s \<in> set st. stype_index (si_sType s) < 13"
    proof
      fix s assume "s \<in> set st"
      then have "si_sType s \<in> set (map si_sType st)" by simp
      then have "si_sType s \<in> set stypes" by (simp only: stty)
      then show "stype_index (si_sType s) < 13" using stypes_in_range by blast
    qed
    then have "\<forall>s \<in> set st. stype_index (si_sType s)
                 < length (resize_to 13 bv_new (memBindings (memoryPool c2)))"
      by (simp add: resize_to_length)
    from base_bindings_total[OF this]
    obtain vs h where bb: "base_bindings st (numBlocks c2) 0
                             (resize_to 13 bv_new (memBindings (memoryPool c2))) (bindingArrays c2)
                           = Inr (vs, h)"
      by blast
    have m: "zero_count_message ci = Some (ZeroCountBlockMemoryBinding j)"
      by (simp add: zero_count_message_def None j)
    show ?thesis
      by (rule exI[of _ "LVN_CORE_ERROR (ZeroCountBlockMemoryBinding j)
                            (c2\<lparr>sTypeMemAllocInfos := st,
                                memoryPool :=
                                  \<lparr>baseMemoryBlock =
                                     Some \<lparr>blk_id = numBlocks c2, blk_size = total_size st\<rparr>,
                                   memBlocks = resize_to 13 [] (memBlocks (memoryPool c2)),
                                   memBindings = vs\<rparr>,
                                bindingArrays := h,
                                numBlocks := numBlocks c2 + 1,
                                blockMemAllocInfos := bt\<rparr>)"],
          rule exI[of _ "ZeroCountBlockMemoryBinding j"])
        (simp add: unf st None bb bt m LVN_CORE_ERROR_fields c2f stnz btnz)
  qed
qed

text \<open>
  C8. Let the configuration ask for the memory pool and hold a binding with a zero count,
  among \<^verbatim>\<open>pMemoryBindings\<close> or \<^verbatim>\<open>pBlockMemoryBindings\<close>, and let every binding name a
  structure type below \<^verbatim>\<open>Lvn_Stype_Max_Value\<close>. Then \<^verbatim>\<open>createContext\<close> returns, with the
  result \<^verbatim>\<open>Lvn_Result_Failure\<close> that \<^verbatim>\<open>createContextMemoryPool\<close> gave it: no assertion fails
  and nothing is thrown. The first such binding has been handed to \<^verbatim>\<open>LVN_CORE_ERROR\<close>, and
  its message is the one line of output if logging and core logging are enabled (there
  is none otherwise). The binding is passed over: the loop returns in front of the
  assignment of the count, so that no structure type but \<^verbatim>\<open>Lvn_Stype_Undefined\<close>, whose
  default count is zero, has a zero count in \<^verbatim>\<open>sTypeMemAllocInfos\<close> or
  \<^verbatim>\<open>blockMemAllocInfos\<close>, from which the bindings are made; and when the zero count is among
  \<^verbatim>\<open>pMemoryBindings\<close>, the function has returned before it makes any binding.
\<close>

theorem zero_count_binding_reported:
  assumes "ci_memAllocMode ci = Lvn_MemAllocMode_MemPool"
    and "\<forall>b \<in> set (ci_pMemoryBindings ci @ ci_pBlockMemoryBindings ci).
           bi_sType b \<noteq> Lvn_Stype_Max_Value"
    and "\<exists>b \<in> set (ci_pMemoryBindings ci @ ci_pBlockMemoryBindings ci). bi_count b = 0"
  shows "\<exists>c m. createContext sizeofT backends None ci = Inr (Lvn_Result_Failure, Some c) \<and>
           zero_count_message ci = Some m \<and>
           logOutput c =
             (if ci_enableLogging ci \<and> \<not> ci_disableCoreLogging ci then [LogError m] else []) \<and>
           no_zero_count (sTypeMemAllocInfos c) \<and> no_zero_count (blockMemAllocInfos c) \<and>
           (first_zero 0 (ci_pMemoryBindings ci) \<noteq> None \<longrightarrow>
              memBindings (memoryPool c) = [] \<and> bindingArrays c = [])"
proof -
  define c1 where "c1 = (initLogging ci LvnContext_new)\<lparr>objectMemoryAllocations := map (\<lambda>t. (t, 0)) stypes\<rparr>"
  from createContextMemoryPool_zero_count[OF assms, of sizeofT c1]
  obtain c m where r: "createContextMemoryPool sizeofT c1 ci = Inr (Lvn_Result_Failure, c)"
    and m: "zero_count_message ci = Some m"
    and l: "logOutput c =
              logOutput c1 @ (if logging c1 \<and> enableCoreLogging c1 then [LogError m] else [])"
    and z: "no_zero_count (sTypeMemAllocInfos c)" "no_zero_count (blockMemAllocInfos c)"
    and f: "first_zero 0 (ci_pMemoryBindings ci) \<noteq> None \<longrightarrow>
              memoryPool c = memoryPool c1 \<and> bindingArrays c = bindingArrays c1"
    by blast
  have c1f: "logOutput c1 = []" "logging c1 = ci_enableLogging ci"
    "enableCoreLogging c1 = (\<not> ci_disableCoreLogging ci)"
    "memBindings (memoryPool c1) = []" "bindingArrays c1 = []"
    by (simp_all add: c1_def initLogging_def LvnContext_new_def Let_def)
  have "createContext sizeofT backends None ci = Inr (Lvn_Result_Failure, Some c)"
    unfolding createContext_def Let_def using r by (simp add: c1_def)
  with m l z f c1f show ?thesis by simp
qed

lemma zero_buffers_eval:
  "ci_memAllocMode zero_buffers = Lvn_MemAllocMode_MemPool"
  "\<forall>b \<in> set (ci_pMemoryBindings zero_buffers @ ci_pBlockMemoryBindings zero_buffers).
     bi_sType b \<noteq> Lvn_Stype_Max_Value"
  "\<exists>b \<in> set (ci_pMemoryBindings zero_buffers @ ci_pBlockMemoryBindings zero_buffers). bi_count b = 0"
  "zero_count_message zero_buffers = Some (ZeroCountMemoryBinding 0)"
  by (simp_all add: zero_buffers_def two_buffers_def zero_count_message_def)

theorem zero_count_binding_reported_witness:
  "\<exists>c. createContext (\<lambda>t. 8) Lvn_Result_Success None zero_buffers
          = Inr (Lvn_Result_Failure, Some c) \<and>
       zero_count_message zero_buffers = Some (ZeroCountMemoryBinding 0) \<and>
       logOutput c = [LogError (ZeroCountMemoryBinding 0)] \<and>
       map si_count (sTypeMemAllocInfos c) = [0, 8, 8, 16, 32, 64, 64, 256, 256, 256, 256, 32, 32] \<and>
       memBindings (memoryPool c) = []"
proof -
  from zero_count_binding_reported[OF zero_buffers_eval(1) zero_buffers_eval(2) zero_buffers_eval(3),
      of "\<lambda>t. 8" Lvn_Result_Success]
  obtain c where c: "createContext (\<lambda>t. 8) Lvn_Result_Success None zero_buffers
                       = Inr (Lvn_Result_Failure, Some c)"
    by blast
  have e: "\<exists>c'. createContext (\<lambda>t. 8) Lvn_Result_Success None zero_buffers
                  = Inr (Lvn_Result_Failure, Some c') \<and>
            logOutput c' = [LogError (ZeroCountMemoryBinding 0)] \<and>
            map si_count (sTypeMemAllocInfos c')
              = [0, 8, 8, 16, 32, 64, 64, 256, 256, 256, 256, 32, 32] \<and>
            memBindings (memoryPool c') = []"
    by (simp add: zero_buffers_def two_buffers_def createContext_def createContextMemoryPool_def
        initLogging_def LvnContext_new_def setDefaultStructTypeMemAllocInfos_def stypes_def
        default_count_def LVN_CORE_ERROR_def Let_def)
  with c show ?thesis by (auto simp: zero_buffers_eval(4))
qed

lemma binding_at_put:
  "binding_at h p = Inr b \<Longrightarrow> binding_at (binding_put h p b') p = Inr b'"
  by (cases p) (auto simp: binding_at_def binding_put_def split: if_splits)



lemma count_decr_result:
  assumes "stype_index sType < length (objectMemoryAllocations ctx)"
  shows "\<exists>c. count_decr sType ctx = Inr c \<and>
           live_count c sType = (live_count ctx sType + 2 ^ 64 - 1) mod 2 ^ 64 \<and>
           memoryMode c = memoryMode ctx \<and> memoryPool c = memoryPool ctx \<and>
           bindingArrays c = bindingArrays ctx \<and> destructorCalls c = destructorCalls ctx \<and>
           liveObjects c = liveObjects ctx \<and> freedHeap c = freedHeap ctx \<and>
           length (objectMemoryAllocations c) = length (objectMemoryAllocations ctx)"
  using assms by (simp add: count_decr_def live_count_def Let_def)

lemma destruct_object_fields:
  "destructorCalls (destruct_object td obj ctx) = destructorCalls ctx @ (if td then [] else [obj])"
  "obj \<notin> set (liveObjects (destruct_object td obj ctx))"
  "bindingArrays (destruct_object td obj ctx) = bindingArrays ctx"
  "memoryPool (destruct_object td obj ctx) = memoryPool ctx"
  "memoryMode (destruct_object td obj ctx) = memoryMode ctx"
  "objectMemoryAllocations (destruct_object td obj ctx) = objectMemoryAllocations ctx"
  "freedHeap (destruct_object td obj ctx) = freedHeap ctx"
  by (simp_all add: destruct_object_def)

lemma base_slotD:
  assumes "base_slot ctx sType obj = Some k"
  obtains p b where "base_binding_ref ctx sType = Inr p" "binding_at (bindingArrays ctx) p = Inr b"
    "slot_of b obj = Some k" "base_binding ctx sType = Some b"
  using assms unfolding base_slot_def base_binding_def
  by (auto split: sum.splits option.splits)

lemma base_binding_ref_cong:
  "memoryPool c = memoryPool ctx \<Longrightarrow> base_binding_ref c sType = base_binding_ref ctx sType"
  by (simp add: base_binding_ref_def)

lemma destroyObject_pool:
  assumes idx: "stype_index sType < length (objectMemoryAllocations ctx)"
    and mode: "memoryMode ctx = Lvn_MemAllocMode_MemPool"
    and slot: "base_slot ctx sType obj = Some k"
  shows "\<exists>c. destroyObject td ctx obj sType = Inr c \<and>
           destructorCalls c = destructorCalls ctx @ (if td then [] else [obj]) \<and>
           obj \<notin> set (liveObjects c) \<and>
           live_count c sType = (live_count ctx sType + 2 ^ 64 - 1) mod 2 ^ 64 \<and>
           base_binding c sType =
             map_option (\<lambda>b. b\<lparr>mb_freeList := mb_freeList b @ [k]\<rparr>) (base_binding ctx sType) \<and>
           freedHeap c = freedHeap ctx \<and> memoryMode c = memoryMode ctx \<and>
           length (objectMemoryAllocations c) = length (objectMemoryAllocations ctx)"
proof -
  from slot obtain p b where p: "base_binding_ref ctx sType = Inr p"
    and b: "binding_at (bindingArrays ctx) p = Inr b"
    and k: "slot_of b obj = Some k" and bb: "base_binding ctx sType = Some b"
    by (rule base_slotD)
  define c1 where "c1 = (destruct_object td obj ctx)
      \<lparr>bindingArrays := binding_put (bindingArrays ctx) p (b\<lparr>mb_freeList := mb_freeList b @ [k]\<rparr>)\<rparr>"
  have pb: "binding_push_back td p obj ctx = Inr c1"
    by (simp add: binding_push_back_def b k c1_def Let_def destruct_object_fields)
  have c1f: "objectMemoryAllocations c1 = objectMemoryAllocations ctx"
    "memoryPool c1 = memoryPool ctx" "memoryMode c1 = memoryMode ctx"
    "destructorCalls c1 = destructorCalls ctx @ (if td then [] else [obj])"
    "obj \<notin> set (liveObjects c1)" "freedHeap c1 = freedHeap ctx"
    "bindingArrays c1 = binding_put (bindingArrays ctx) p (b\<lparr>mb_freeList := mb_freeList b @ [k]\<rparr>)"
    by (simp_all add: c1_def destruct_object_fields)
  from idx have "stype_index sType < length (objectMemoryAllocations c1)"
    by (simp add: c1f)
  from count_decr_result[OF this]
  obtain c where c: "count_decr sType c1 = Inr c"
    and cf: "live_count c sType = (live_count c1 sType + 2 ^ 64 - 1) mod 2 ^ 64"
      "memoryMode c = memoryMode c1" "memoryPool c = memoryPool c1"
      "bindingArrays c = bindingArrays c1" "destructorCalls c = destructorCalls c1"
      "liveObjects c = liveObjects c1" "freedHeap c = freedHeap c1"
      "length (objectMemoryAllocations c) = length (objectMemoryAllocations c1)"
    by blast
  have d: "destroyObject td ctx obj sType = Inr c"
    by (simp add: destroyObject_def mode p pb c and_then_def)
  have lc: "live_count c1 sType = live_count ctx sType"
    by (simp add: live_count_def c1f)
  have ref: "base_binding_ref c sType = Inr p"
    using base_binding_ref_cong[of c ctx sType] p by (simp add: cf c1f)
  have "base_binding c sType = Some (b\<lparr>mb_freeList := mb_freeList b @ [k]\<rparr>)"
    by (simp add: base_binding_def ref cf c1f binding_at_put[OF b])
  with d cf c1f lc bb show ?thesis by simp
qed



text \<open>The equations that evaluate the pool on a configuration.\<close>

lemmas pool_eval =
  two_buffers_def two_buffers_ctx_def two_buffers_full_def createContext_def
  createContextMemoryPool_def initLogging_def LvnContext_new_def
  setDefaultStructTypeMemAllocInfos_def stypes_def default_count_def total_size_def
  resize_to_def bv_new_def bv_push_back_def bv_reserve_def bv_index_def bv_back_def
  binding_at_def binding_put_def MemoryBinding_new_def has_free_slot_def binding_cells_def
  slot_ptr_def take_next_def slot_of_def destruct_object_def binding_push_back_def
  set_next_memory_binding_def LVN_CORE_ERROR_def LVN_CORE_TRACE_def createMemoryBlock_push_def
  createMemoryBlock_link_def createMemoryBlock_def count_incr_def count_decr_def live_count_def
  base_binding_ref_def base_binding_def base_slot_def createObject_def destroyObject_def
  and_then_def Let_def



text \<open>
  C2. A base binding of two buffers, filled by \<open>B1\<close> and \<open>B2\<close>; the third \<^verbatim>\<open>createObject\<close>
  finds no free slot and calls \<^verbatim>\<open>createMemoryBlock\<close>, which should leave the new binding
  linked behind the base binding. \<^verbatim>\<open>createMemoryBlock\<close> takes \<^verbatim>\<open>prevMemBinding\<close> from
  \<^verbatim>\<open>&memBinding.back()\<close> and then calls \<^verbatim>\<open>memBinding.push_back(...)\<close>; the container holds
  one binding in an array of one, so the push copies the binding to a new array and
  frees the old one. After the push one block has been added, \<^verbatim>\<open>prevMemBinding\<close> points
  into the freed array 7, the base binding \<^verbatim>\<open>memBindings[sType][0]\<close> lies in array 13 with
  no \<^verbatim>\<open>next\<close>, and the walk along \<^verbatim>\<open>next\<close> from it visits it alone, not the new binding at
  index 1. The link is then written through the dangling pointer: the third
  \<^verbatim>\<open>createObject\<close> does not get as far as an object.
\<close>

theorem chain_growth_link_is_lost:
  "and_then two_buffers_full
     (\<lambda>(b1, b2, c). and_then (createObject c Lvn_Stype_Buffer) (\<lambda>(b3, c3). Inr b3))
     = Inl DanglingPointer \<and>
   and_then two_buffers_full
     (\<lambda>(b1, b2, c).
        and_then (createMemoryBlock_push c Lvn_Stype_Buffer)
          (\<lambda>(prevMemBinding, c').
             Inr (length (memBlocks (memoryPool c') ! stype_index Lvn_Stype_Buffer),
                  prevMemBinding,
                  map_option (binding_at (bindingArrays c')) prevMemBinding,
                  base_binding_ref c' Lvn_Stype_Buffer,
                  bv_back (memBindings (memoryPool c') ! stype_index Lvn_Stype_Buffer),
                  and_then (base_binding_ref c' Lvn_Stype_Buffer)
                    (binding_chain (binding_cells (bindingArrays c')) (bindingArrays c')))))
     = Inr (1, Some (7, 0), Some (Inl DanglingPointer), Inr (13, 0), Inr (13, 1),
            Inr [(13, 0)])"
  by (simp add: pool_eval)

text \<open>
  C3. The scenario of the specification, with a base binding of two buffers: create
  \<open>B1\<close>, \<open>B2\<close>, \<open>B3\<close>, destroy \<open>B1\<close>, create \<open>B4\<close>, which should be \<open>B1\<close> again. Creating \<open>B3\<close>
  grows the chain and runs into the dangling pointer of \<^verbatim>\<open>createMemoryBlock\<close>, so the
  scenario does not get to \<open>B4\<close>. Without \<open>B3\<close> the slot is reused and no block is added:
  create \<open>B1\<close>, \<open>B2\<close>, destroy \<open>B1\<close>, create \<open>B4\<close> gives \<open>B4 = B1\<close>.
\<close>

theorem pool_reuse_scenario_fails:
  "and_then two_buffers_full
     (\<lambda>(b1, b2, c).
        and_then (createObject c Lvn_Stype_Buffer)
          (\<lambda>(b3, c3). and_then (destroyObject False c3 b1 Lvn_Stype_Buffer)
             (\<lambda>c4. and_then (createObject c4 Lvn_Stype_Buffer)
                (\<lambda>(b4, c5). Inr (b4 = b1)))))
     = Inl DanglingPointer \<and>
   and_then two_buffers_full
     (\<lambda>(b1, b2, c).
        and_then (destroyObject False c b1 Lvn_Stype_Buffer)
          (\<lambda>c4. and_then (createObject c4 Lvn_Stype_Buffer)
             (\<lambda>(b4, c5). Inr (b4 = b1, length (memBlocks (memoryPool c5) ! stype_index Lvn_Stype_Buffer)))))
     = Inr (True, 0)"
  by (simp add: pool_eval)

lemma slot_of_slot_ptr:
  assumes "mb_block b' = mb_block b" "mb_offset b' = mb_offset b"
    "mb_elementSize b' = mb_elementSize b" "mb_count b' = mb_count b"
    "0 < mb_elementSize b" "k < mb_count b"
  shows "slot_of b' (slot_ptr b k) = Some k"
  using assms by (simp add: slot_of_def slot_ptr_def)

lemma slot_ptr_slot_of:
  assumes "slot_of b obj = Some k"
  shows "slot_ptr b k = obj"
proof (cases obj)
  case (HeapPtr n)
  with assms show ?thesis by (simp add: slot_of_def)
next
  case (BlockPtr blk off)
  with assms have blk: "blk = mb_block b" and le: "mb_offset b \<le> off"
    and m: "(off - mb_offset b) mod mb_elementSize b = 0"
    and k: "k = (off - mb_offset b) div mb_elementSize b"
    by (auto simp: slot_of_def split: if_splits)
  have "k * mb_elementSize b = off - mb_offset b"
    using m k by (metis add.right_neutral div_mult_mod_eq)
  then have "mb_offset b + k * mb_elementSize b = off" using le by simp
  then show ?thesis by (simp add: slot_ptr_def BlockPtr blk)
qed

lemma base_bindingD:
  assumes "base_binding ctx sType = Some b"
  obtains p where "base_binding_ref ctx sType = Inr p" "binding_at (bindingArrays ctx) p = Inr b"
  using assms unfolding base_binding_def by (auto split: sum.splits)

lemma count_incr_result:
  assumes "stype_index sType < length (objectMemoryAllocations ctx)"
  shows "\<exists>c. count_incr sType ctx = Inr c \<and>
           live_count c sType = (live_count ctx sType + 1) mod 2 ^ 64 \<and>
           memoryMode c = memoryMode ctx \<and> memoryPool c = memoryPool ctx \<and>
           bindingArrays c = bindingArrays ctx \<and> destructorCalls c = destructorCalls ctx \<and>
           liveObjects c = liveObjects ctx \<and> freedHeap c = freedHeap ctx"
  using assms by (simp add: count_incr_def live_count_def Let_def)

lemma find_empty_here:
  "binding_at h p = Inr b \<Longrightarrow> has_free_slot b \<Longrightarrow>
   find_empty_memory_binding fuel h p = Inr (Some p)"
  by simp

lemma createObject_from_base:
  assumes mode: "memoryMode ctx = Lvn_MemAllocMode_MemPool"
    and idx: "stype_index sType < length (objectMemoryAllocations ctx)"
    and bb: "base_binding ctx sType = Some b"
    and free: "has_free_slot b"
  defines "k \<equiv> (if mb_freeList b \<noteq> [] then last (mb_freeList b) else mb_cursor b)"
  defines "b' \<equiv> (if mb_freeList b \<noteq> [] then b\<lparr>mb_freeList := butlast (mb_freeList b)\<rparr>
                  else b\<lparr>mb_cursor := mb_cursor b + 1\<rparr>)"
  shows "\<exists>c. createObject ctx sType = Inr (slot_ptr b k, c) \<and>
             base_binding c sType = Some b' \<and>
             live_count c sType = (live_count ctx sType + 1) mod 2 ^ 64 \<and>
             memoryMode c = memoryMode ctx \<and>
             memBlocks (memoryPool c) = memBlocks (memoryPool ctx)"
proof -
  from bb obtain p where p: "base_binding_ref ctx sType = Inr p"
    and b: "binding_at (bindingArrays ctx) p = Inr b"
    by (rule base_bindingD)
  have fe: "find_empty_memory_binding (binding_cells (bindingArrays ctx)) (bindingArrays ctx) p
              = Inr (Some p)"
    by (rule find_empty_here[OF b free])
  have tn: "take_next (bindingArrays ctx) p
              = Inr (slot_ptr b k, binding_put (bindingArrays ctx) p b')"
    by (simp add: take_next_def b k_def b'_def)
  define c1 where "c1 = ctx\<lparr>bindingArrays := binding_put (bindingArrays ctx) p b',
                            liveObjects := liveObjects ctx @ [slot_ptr b k]\<rparr>"
  have "stype_index sType < length (objectMemoryAllocations c1)"
    using idx by (simp add: c1_def)
  from count_incr_result[OF this]
  obtain c where c: "count_incr sType c1 = Inr c"
    and cf: "live_count c sType = (live_count c1 sType + 1) mod 2 ^ 64"
      "memoryMode c = memoryMode c1" "memoryPool c = memoryPool c1"
      "bindingArrays c = bindingArrays c1"
    by blast
  have co: "createObject ctx sType = Inr (slot_ptr b k, c)"
    using c by (simp add: createObject_def mode p fe tn and_then_def c1_def
        del: find_empty_memory_binding.simps)
  have ref: "base_binding_ref c sType = Inr p"
    using base_binding_ref_cong[of c ctx sType] p by (simp add: cf c1_def)
  have "base_binding c sType = Some b'"
    by (simp add: base_binding_def ref cf c1_def binding_at_put[OF b])
  moreover have "live_count c1 sType = live_count ctx sType"
    by (simp add: live_count_def c1_def)
  ultimately show ?thesis using co cf by (auto simp: c1_def)
qed

text \<open>
  While the binding \<^verbatim>\<open>memBindings[sType][0]\<close> has a free slot, the object that
  \<^verbatim>\<open>createObject\<close> returns in pool mode is a slot of that binding, and no block is added.
  The binding is taken to be well formed: slots of a positive size, the cursor and the
  entries of the free list within the count.
\<close>

lemma createObject_gives_base_slot:
  assumes mode: "memoryMode ctx = Lvn_MemAllocMode_MemPool"
    and idx: "stype_index sType < length (objectMemoryAllocations ctx)"
    and bb: "base_binding ctx sType = Some b"
    and free: "has_free_slot b"
    and wf: "0 < mb_elementSize b" "\<forall>j \<in> set (mb_freeList b). j < mb_count b"
  shows "\<exists>obj c k. createObject ctx sType = Inr (obj, c) \<and> base_slot c sType obj = Some k \<and>
           memBlocks (memoryPool c) = memBlocks (memoryPool ctx)"
proof -
  define k where "k = (if mb_freeList b \<noteq> [] then last (mb_freeList b) else mb_cursor b)"
  define b' where "b' = (if mb_freeList b \<noteq> [] then b\<lparr>mb_freeList := butlast (mb_freeList b)\<rparr>
                  else b\<lparr>mb_cursor := mb_cursor b + 1\<rparr>)"
  from createObject_from_base[OF mode idx bb free, folded k_def b'_def]
  obtain c where c: "createObject ctx sType = Inr (slot_ptr b k, c)"
    and bc: "base_binding c sType = Some b'"
    and mb: "memBlocks (memoryPool c) = memBlocks (memoryPool ctx)"
    by blast
  have kc: "k < mb_count b"
    using free wf(2) by (auto simp: k_def has_free_slot_def)
  have "slot_of b' (slot_ptr b k) = Some k"
    by (rule slot_of_slot_ptr) (simp_all add: b'_def wf(1) kc)
  then have "base_slot c sType (slot_ptr b k) = Some k"
    by (simp add: base_slot_def bc)
  with c mb show ?thesis by blast
qed

text \<open>
  The free list is last in, first out: in pool mode, the object that \<^verbatim>\<open>destroyObject\<close> has
  returned to the binding \<^verbatim>\<open>memBindings[sType][0]\<close> is the object that the next
  \<^verbatim>\<open>createObject\<close> of the type returns, and no block is added.
\<close>

lemma destroy_then_create_reuses_slot:
  assumes mode: "memoryMode ctx = Lvn_MemAllocMode_MemPool"
    and idx: "stype_index sType < length (objectMemoryAllocations ctx)"
    and slot: "base_slot ctx sType obj = Some k"
  shows "\<exists>c c'. destroyObject td ctx obj sType = Inr c \<and> createObject c sType = Inr (obj, c') \<and>
           memBlocks (memoryPool c') = memBlocks (memoryPool c)"
proof -
  from slot obtain p b where bb: "base_binding ctx sType = Some b" and k: "slot_of b obj = Some k"
    by (rule base_slotD)
  from destroyObject_pool[OF idx mode slot, of td]
  obtain c where d: "destroyObject td ctx obj sType = Inr c"
    and bc: "base_binding c sType =
               map_option (\<lambda>b. b\<lparr>mb_freeList := mb_freeList b @ [k]\<rparr>) (base_binding ctx sType)"
    and mc: "memoryMode c = memoryMode ctx"
    and len: "length (objectMemoryAllocations c) = length (objectMemoryAllocations ctx)"
    by blast
  let ?b = "b\<lparr>mb_freeList := mb_freeList b @ [k]\<rparr>"
  have bc': "base_binding c sType = Some ?b" by (simp add: bc bb)
  have free: "has_free_slot ?b" by (simp add: has_free_slot_def)
  have mode': "memoryMode c = Lvn_MemAllocMode_MemPool" by (simp add: mc mode)
  have idx': "stype_index sType < length (objectMemoryAllocations c)" by (simp add: len idx)
  from createObject_from_base[OF mode' idx' bc' free]
  obtain c' where c': "createObject c sType = Inr (slot_ptr ?b k, c')"
    and mb: "memBlocks (memoryPool c') = memBlocks (memoryPool c)"
    by auto
  have "slot_ptr ?b k = slot_ptr b k" by (simp add: slot_ptr_def)
  also have "\<dots> = obj" by (rule slot_ptr_slot_of[OF k])
  finally have "createObject c sType = Inr (obj, c')" using c' by simp
  with d mb show ?thesis by blast
qed

end
